theory Spec2Isabelle
  imports Main
begin

text \<open>
  A model of the company intelligence agent: the orchestrator \<open>run_pipeline\<close>, which
  verifies a company, routes the question to an intent, searches the web and lets a
  specialist agent synthesize the answer, yielding progress events on the way; the
  router and the three specialists; and the wrappers of the search and LLM clients.
  The two providers, the process environment and the library functions are parameters
  of the model. Functions that call a provider or yield events are state transformers
  that return a value or an exception; the others are pure.
\<close>

section \<open>Python values\<close>

text \<open>
  A Python \<open>str\<close> is a sequence of Unicode code points: \<open>len\<close> and slicing count code
  points, and the progress messages of the orchestrator hold characters far beyond one
  byte. A string is therefore a list of code points; \<open>py\<close> embeds an ASCII literal.
\<close>

type_synonym pstr = "nat list"

definition py :: "string \<Rightarrow> pstr" where
  "py s = map of_char s"

text \<open>
  A float is known to the program by two observations only: whether it is non-zero
  (truthiness) and the text \<open>str\<close> gives for it.
\<close>

datatype pyfloat = PyFloat (nonzero: bool) (shown: pstr)

text \<open>
  What \<open>json.loads\<close> and the search client's response hold: \<open>None\<close>, booleans,
  numbers, strings, lists, and dicts with string keys (an association list, looked up
  from the front).
\<close>

datatype json =
    JNull
  | JBool bool
  | JInt int
  | JFloat pyfloat
  | JStr pstr
  | JArr "json list"
  | JObj "(pstr \<times> json) list"

type_synonym pydict = "(pstr \<times> json) list"

text \<open>
  Exceptions. The only handler of the program is \<open>except Exception\<close>, so the class of
  the exception the interpreter raises when a value does not support an operation
  (\<open>TypeError\<close>, or \<open>AttributeError\<close> for a missing method) is not told apart: all are
  \<open>TypeError\<close> here. \<open>EnumValueError\<close> is the \<open>ValueError\<close> of an enumeration without
  the value, \<open>ValidationError\<close> the one of a model whose field has the wrong type, and
  \<open>ExternalError\<close> an exception raised inside one of the two API clients.
\<close>

datatype error =
    ValueError pstr
  | KeyError pstr
  | EnumValueError json
  | JSONDecodeError
  | ValidationError
  | TypeError
  | ExternalError pstr

text \<open>Truthiness, as \<open>if x:\<close> and \<open>x or y\<close> test it.\<close>

fun truthy :: "json \<Rightarrow> bool" where
  "truthy JNull = False"
| "truthy (JBool b) = b"
| "truthy (JInt i) = (i \<noteq> 0)"
| "truthy (JFloat f) = nonzero f"
| "truthy (JStr s) = (s \<noteq> [])"
| "truthy (JArr xs) = (xs \<noteq> [])"
| "truthy (JObj kvs) = (kvs \<noteq> [])"

text \<open>An \<open>Optional[str]\<close> is truthy when it is a non-empty string.\<close>

fun truthy_opt :: "pstr option \<Rightarrow> bool" where
  "truthy_opt None = False"
| "truthy_opt (Some s) = (s \<noteq> [])"

text \<open>\<open>d.get(k, default)\<close>: only a dict has the method.\<close>

fun py_get :: "json \<Rightarrow> pstr \<Rightarrow> json \<Rightarrow> error + json" where
  "py_get (JObj kvs) k d = Inr (case map_of kvs k of None \<Rightarrow> d | Some v \<Rightarrow> v)"
| "py_get _ k d = Inl TypeError"

text \<open>\<open>d[k]\<close> for a string \<open>k\<close>: a missing key of a dict raises \<open>KeyError\<close>.\<close>

fun py_getitem :: "json \<Rightarrow> pstr \<Rightarrow> error + json" where
  "py_getitem (JObj kvs) k = (case map_of kvs k of None \<Rightarrow> Inl (KeyError k) | Some v \<Rightarrow> Inr v)"
| "py_getitem _ k = Inl TypeError"

text \<open>
  Iteration (\<open>for x in v\<close>): a list gives its elements, a dict its keys, a string its
  characters; nothing else is iterable.
\<close>

fun py_iter :: "json \<Rightarrow> error + json list" where
  "py_iter (JArr xs) = Inr xs"
| "py_iter (JObj kvs) = Inr (map (\<lambda>kv. JStr (fst kv)) kvs)"
| "py_iter (JStr s) = Inr (map (\<lambda>c. JStr [c]) s)"
| "py_iter _ = Inl TypeError"

text \<open>The slice \<open>v[:n]\<close>: strings and lists are sliced.\<close>

fun py_slice :: "nat \<Rightarrow> json \<Rightarrow> error + json" where
  "py_slice n (JStr s) = Inr (JStr (take n s))"
| "py_slice n (JArr xs) = Inr (JArr (take n xs))"
| "py_slice n _ = Inl TypeError"

text \<open>\<open>v.replace('\n', ' ')\<close>: a method of strings.\<close>

fun py_replace_newlines :: "json \<Rightarrow> error + json" where
  "py_replace_newlines (JStr s) = Inr (JStr (map (\<lambda>c. if c = 10 then 32 else c) s))"
| "py_replace_newlines _ = Inl TypeError"

text \<open>
  \<open>a + b\<close> where the source concatenates strings: both operands must be strings (a
  list on the left of a string, like every other pairing, fails).
\<close>

fun py_add_str :: "json \<Rightarrow> json \<Rightarrow> error + pstr" where
  "py_add_str (JStr a) (JStr b) = Inr (a @ b)"
| "py_add_str _ _ = Inl TypeError"

text \<open>
  \<open>v += t\<close> for a string \<open>t\<close>: a string is extended, and so is a list (by the characters
  of \<open>t\<close>).
\<close>

fun py_iadd_str :: "json \<Rightarrow> pstr \<Rightarrow> error + json" where
  "py_iadd_str (JStr s) t = Inr (JStr (s @ t))"
| "py_iadd_str (JArr xs) t = Inr (JArr (xs @ map (\<lambda>c. JStr [c]) t))"
| "py_iadd_str _ t = Inl TypeError"

text \<open>Decimal digits of a natural number, as an f-string prints an \<open>int\<close>.\<close>

fun py_nat_str :: "nat \<Rightarrow> pstr" where
  "py_nat_str n = (if n < 10 then [48 + n] else py_nat_str (n div 10) @ [48 + n mod 10])"

declare py_nat_str.simps [simp del]

text \<open>\<open>sep.join(parts)\<close>.\<close>

fun py_join :: "pstr \<Rightarrow> pstr list \<Rightarrow> pstr" where
  "py_join sep [] = []"
| "py_join sep [p] = p"
| "py_join sep (p # q # ps) = p @ sep @ py_join sep (q # ps)"

text \<open>
  \<open>str.strip()\<close> removes the characters for which \<open>str.isspace\<close> holds from both
  ends.
\<close>

definition is_space :: "nat \<Rightarrow> bool" where
  "is_space c \<longleftrightarrow>
     (9 \<le> c \<and> c \<le> 13) \<or> (28 \<le> c \<and> c \<le> 32) \<or> c = 133 \<or> c = 160 \<or> c = 5760 \<or>
     (8192 \<le> c \<and> c \<le> 8202) \<or> c = 8232 \<or> c = 8233 \<or> c = 8239 \<or> c = 8287 \<or> c = 12288"

definition strip :: "pstr \<Rightarrow> pstr" where
  "strip s = rev (dropWhile is_space (rev (dropWhile is_space s)))"

definition startswith :: "pstr \<Rightarrow> pstr \<Rightarrow> bool" where
  "startswith s p \<longleftrightarrow> take (length p) s = p"

definition endswith :: "pstr \<Rightarrow> pstr \<Rightarrow> bool" where
  "endswith s p \<longleftrightarrow> length p \<le> length s \<and> drop (length s - length p) s = p"

section \<open>The library and the outside world\<close>

text \<open>
  Library functions the program calls and whose code is not the program's: the JSON
  decoder (\<open>None\<close> when \<open>json.loads\<close> raises) and encoder, \<open>str\<close> of a list or a dict,
  \<open>str\<close> of an exception and the text of a traceback.
\<close>

record lib =
  json_loads :: "pstr \<Rightarrow> json option"
  json_dumps :: "pstr list \<Rightarrow> pstr"
  py_str :: "json \<Rightarrow> pstr"
  exc_str :: "error \<Rightarrow> pstr"
  format_exc :: "error \<Rightarrow> pstr"

text \<open>An f-string field \<open>{v}\<close>: \<open>str(v)\<close>, and a string stands for itself.\<close>

fun py_format :: "lib \<Rightarrow> json \<Rightarrow> pstr" where
  "py_format l (JStr s) = s"
| "py_format l JNull = py ''None''"
| "py_format l (JBool b) = (if b then py ''True'' else py ''False'')"
| "py_format l (JInt i) =
     (if i < 0 then py ''-'' @ py_nat_str (nat (- i)) else py_nat_str (nat i))"
| "py_format l (JFloat f) = shown f"
| "py_format l v = py_str l v"

text \<open>
  The specialist agents, and the log of calls a run makes: the entries into the
  program's own functions and the requests sent to the two providers. The log is not
  a variable of the source; it records which calls happened, with which arguments.
\<close>

datatype specialist = Competitor | Founder | Business

datatype call =
    VerifyCompany pstr pstr
  | Route pstr "pstr option" pstr "pstr option"
  | Search pstr nat
  | Synthesize specialist pstr "pydict list" "pstr option"
  | Chat pstr pstr bool
  | TavilyRequest pstr nat
  | AnthropicRequest pstr pstr

text \<open>
  The outside world answers as a function of everything called so far, so two equal
  requests may get different answers: the process environment, the search provider
  (\<open>client.search(query, max_results, search_depth="basic")\<close>, a response or an
  exception), the LLM provider (\<open>client.messages.create(...)\<close> with
  \<open>response.content[0].text\<close> read off, or an exception) and the clock (the text of
  \<open>f"{elapsed:.2f}"\<close> for the search just made).
\<close>

record world =
  getenv :: "call list \<Rightarrow> pstr \<Rightarrow> pstr option"
  tavily_search :: "call list \<Rightarrow> pstr \<Rightarrow> nat \<Rightarrow> error + json"
  messages_create :: "call list \<Rightarrow> pstr \<Rightarrow> pstr \<Rightarrow> error + pstr"
  elapsed_text :: "call list \<Rightarrow> pstr"

section \<open>Events, state and exceptions\<close>

record AgentEvent =
  agent :: pstr
  event :: pstr
  content :: pstr

definition make_event :: "pstr \<Rightarrow> pstr \<Rightarrow> pstr \<Rightarrow> AgentEvent" where
  "make_event a e c = \<lparr>agent = a, event = e, content = c\<rparr>"

text \<open>
  A run appends to the stream of events it has yielded and to the log of calls. A
  computation returns a value or raises, and leaves the state it reached either way.
\<close>

record trace =
  events :: "AgentEvent list"
  calls :: "call list"

type_synonym 'a io = "trace \<Rightarrow> (error + 'a) \<times> trace"

definition returnM :: "'a \<Rightarrow> 'a io" where
  "returnM x = (\<lambda>s. (Inr x, s))"

definition raiseM :: "error \<Rightarrow> 'a io" where
  "raiseM e = (\<lambda>s. (Inl e, s))"

definition bindM :: "'a io \<Rightarrow> ('a \<Rightarrow> 'b io) \<Rightarrow> 'b io" where
  "bindM m f = (\<lambda>s. case m s of (Inl e, s') \<Rightarrow> (Inl e, s') | (Inr x, s') \<Rightarrow> f x s')"

definition thenM :: "unit io \<Rightarrow> 'b io \<Rightarrow> 'b io" where
  "thenM m k = bindM m (\<lambda>_. k)"

definition liftE :: "error + 'a \<Rightarrow> 'a io" where
  "liftE r = (\<lambda>s. (r, s))"

definition yield :: "AgentEvent \<Rightarrow> unit io" where
  "yield ev = (\<lambda>s. (Inr (), s\<lparr>events := events s @ [ev]\<rparr>))"

definition log_call :: "call \<Rightarrow> unit io" where
  "log_call c = (\<lambda>s. (Inr (), s\<lparr>calls := calls s @ [c]\<rparr>))"

definition history :: "(call list) io" where
  "history = (\<lambda>s. (Inr (calls s), s))"

fun yield_all :: "AgentEvent list \<Rightarrow> unit io" where
  "yield_all [] = returnM ()"
| "yield_all (ev # evs) = thenM (yield ev) (yield_all evs)"

fun forM :: "'a list \<Rightarrow> ('a \<Rightarrow> unit io) \<Rightarrow> unit io" where
  "forM [] f = returnM ()"
| "forM (x # xs) f = thenM (f x) (forM xs f)"

text \<open>A list comprehension whose element expression may raise: the first failure wins.\<close>

fun mapE :: "('a \<Rightarrow> error + 'b) \<Rightarrow> 'a list \<Rightarrow> error + 'b list" where
  "mapE f [] = Inr []"
| "mapE f (x # xs) =
     (case f x of
        Inl e \<Rightarrow> Inl e
      | Inr y \<Rightarrow> (case mapE f xs of Inl e \<Rightarrow> Inl e | Inr ys \<Rightarrow> Inr (y # ys)))"

definition bindE :: "error + 'a \<Rightarrow> ('a \<Rightarrow> error + 'b) \<Rightarrow> error + 'b" where
  "bindE r f = (case r of Inl e \<Rightarrow> Inl e | Inr x \<Rightarrow> f x)"

section \<open>Data model (models.py)\<close>

datatype IntentType = COMPETITOR | FOUNDER | BUSINESS | UNKNOWN

fun IntentType_value :: "IntentType \<Rightarrow> pstr" where
  "IntentType_value COMPETITOR = py ''competitor_analysis''"
| "IntentType_value FOUNDER = py ''founder_lookup''"
| "IntentType_value BUSINESS = py ''business_overview''"
| "IntentType_value UNKNOWN = py ''unknown''"

definition IntentType_members :: "IntentType list" where
  "IntentType_members = [COMPETITOR, FOUNDER, BUSINESS, UNKNOWN]"

text \<open>
  \<open>IntentType(v)\<close>: the member whose value equals \<open>v\<close>, \<open>ValueError\<close> when there is
  none.
\<close>

fun IntentType_of :: "json \<Rightarrow> error + IntentType" where
  "IntentType_of (JStr s) =
     (case find (\<lambda>m. IntentType_value m = s) IntentType_members of
        Some m \<Rightarrow> Inr m
      | None \<Rightarrow> Inl (EnumValueError (JStr s)))"
| "IntentType_of v = Inl (EnumValueError v)"

record UserRequest =
  company_name :: pstr
  website :: "pstr option"
  query :: pstr

record CompanyVerification =
  verified :: bool
  company_description :: pstr
  similar_companies :: "pstr list"
  verification_method :: pstr

record RouterResult =
  intent :: IntentType
  reasoning :: pstr
  search_queries :: "pstr list"
  company_context :: "pstr option"

text \<open>
  The models validate their fields when they are built (pydantic, which since its
  version 2 does not turn a number into a string): a \<open>str\<close> field takes a string, a
  \<open>list[str]\<close> field a list of strings, and anything else raises \<open>ValidationError\<close>.
\<close>

fun validate_str :: "json \<Rightarrow> error + pstr" where
  "validate_str (JStr s) = Inr s"
| "validate_str _ = Inl ValidationError"

fun validate_str_list :: "json \<Rightarrow> error + pstr list" where
  "validate_str_list (JArr xs) = mapE validate_str xs"
| "validate_str_list _ = Inl ValidationError"

section \<open>The LLM wrapper (tools/llm.py)\<close>

definition get_client :: "world \<Rightarrow> unit io" where
  "get_client w =
     bindM history (\<lambda>h.
       if \<not> truthy_opt (getenv w h (py ''ANTHROPIC_API_KEY''))
       then raiseM (ValueError (py ''ANTHROPIC_API_KEY not set in environment''))
       else returnM ())"

definition JSON_MODE_SUFFIX :: pstr where
  "JSON_MODE_SUFFIX =
     [10, 10] @ py ''You MUST respond with valid JSON only. No markdown, no explanation, just JSON.''"

definition chat :: "world \<Rightarrow> pstr \<Rightarrow> pstr \<Rightarrow> bool \<Rightarrow> pstr io" where
  "chat w system_prompt user_message json_mode =
     thenM (log_call (Chat system_prompt user_message json_mode))
    (thenM (get_client w)
    (bindM (returnM (if json_mode then system_prompt @ JSON_MODE_SUFFIX else system_prompt))
       (\<lambda>system_prompt'.
     bindM history (\<lambda>h.
     thenM (log_call (AnthropicRequest system_prompt' user_message))
       (liftE (messages_create w h system_prompt' user_message))))))"

text \<open>
  \<open>parse_json_response\<close>: the text handed to \<open>json.loads\<close> is the reply stripped of
  surrounding white space and of a leading and a trailing code fence.
\<close>

definition fence :: pstr where
  "fence = [96, 96, 96]"

definition fence_stripped :: "pstr \<Rightarrow> pstr" where
  "fence_stripped text0 =
     (let text1 = strip text0;
          text2 = (if startswith text1 fence
                   then (if 10 \<in> set text1 then tl (dropWhile (\<lambda>c. c \<noteq> 10) text1)
                         else drop 3 text1)
                   else text1);
          text3 = (if endswith text2 fence then take (length text2 - 3) text2 else text2)
      in strip text3)"

definition parse_json_response :: "lib \<Rightarrow> pstr \<Rightarrow> error + json" where
  "parse_json_response l text0 =
     (case json_loads l (fence_stripped text0) of
        None \<Rightarrow> Inl JSONDecodeError
      | Some v \<Rightarrow> Inr v)"

section \<open>The search wrapper (tools/search.py)\<close>

definition get_tavily_client :: "world \<Rightarrow> unit io" where
  "get_tavily_client w =
     bindM history (\<lambda>h.
       if \<not> truthy_opt (getenv w h (py ''TAVILY_API_KEY''))
       then raiseM (ValueError (py ''TAVILY_API_KEY not set in environment''))
       else returnM ())"

text \<open>The dict built for one item \<open>r\<close> of the response.\<close>

definition search_item :: "json \<Rightarrow> error + pydict" where
  "search_item r =
     bindE (py_get r (py ''title'') (JStr [])) (\<lambda>t.
     bindE (py_get r (py ''url'') (JStr [])) (\<lambda>u.
     bindE (py_get r (py ''content'') (JStr [])) (\<lambda>c.
     bindE (py_slice 500 c) (\<lambda>c'.
       Inr [(py ''title'', t), (py ''url'', u), (py ''content'', c')]))))"

definition search :: "world \<Rightarrow> pstr \<Rightarrow> nat \<Rightarrow> (pydict list) io" where
  "search w query_text max_results =
     thenM (log_call (Search query_text max_results))
    (thenM (get_tavily_client w)
    (bindM history (\<lambda>h.
     thenM (log_call (TavilyRequest query_text max_results))
    (bindM (liftE (tavily_search w h query_text max_results)) (\<lambda>response.
       liftE (bindE (py_get response (py ''results'') (JArr [])) (\<lambda>rs.
              bindE (py_iter rs) (mapE search_item))))))))"

section \<open>Specialist agents (agents/competitor.py, founder.py, business.py)\<close>

text \<open>
  \<open>r[k]\<close> on a search result, and the block
  \<open>f"Source: {r['title']} ({r['url']})\n{r['content']}"\<close> that every prompt joins with
  blank lines.
\<close>

definition source_block :: "lib \<Rightarrow> pydict \<Rightarrow> error + pstr" where
  "source_block l r =
     bindE (py_getitem (JObj r) (py ''title'')) (\<lambda>t.
     bindE (py_getitem (JObj r) (py ''url'')) (\<lambda>u.
     bindE (py_getitem (JObj r) (py ''content'')) (\<lambda>c.
       Inr (py ''Source: '' @ py_format l t @ py '' ('' @ py_format l u @ py '')'' @ [10]
            @ py_format l c))))"

definition search_context :: "lib \<Rightarrow> pydict list \<Rightarrow> error + pstr" where
  "search_context l rs = bindE (mapE (source_block l) rs) (\<lambda>blocks. Inr (py_join [10, 10] blocks))"

definition context_info :: "pstr option \<Rightarrow> pstr" where
  "context_info ctx =
     (case ctx of
        Some c \<Rightarrow> (if c \<noteq> [] then [10] @ py ''Verified Company Context: '' @ c @ [10] else [])
      | None \<Rightarrow> [])"

definition COMPETITOR_SYNTHESIZE_PROMPT :: pstr where
  "COMPETITOR_SYNTHESIZE_PROMPT = concat
    [py ''You are a competitive intelligence analyst.'' @ [10],
     [10],
     py ''Given search results about a company'' @ [39] @ py ''s competitors, provide a concise analysis.'' @ [10],
     [10],
     py ''IMPORTANT: If company context is provided, use it to ensure you are analyzing the CORRECT company.'' @ [10],
     py ''There may be multiple companies with similar names - focus only on the verified target company.'' @ [10],
     [10],
     py ''Format your response as:'' @ [10],
     py ''1. **[Competitor Name]** - One sentence about what they do and why they compete.'' @ [10],
     py ''2. **[Competitor Name]** - ...'' @ [10],
     py ''3. **[Competitor Name]** - ...'' @ [10],
     [10],
     py ''Keep it to the top 3 competitors. Be specific and concise.'' @ [10],
     py ''If the search results don'' @ [39] @ py ''t contain enough info, say what you know and note the gaps.'' @ [10]]"

definition competitor_user_msg :: "lib \<Rightarrow> pstr \<Rightarrow> pydict list \<Rightarrow> pstr option \<Rightarrow> error + pstr" where
  "competitor_user_msg l name rs ctx =
     bindE (search_context l rs) (\<lambda>sc.
       Inr (py ''Company: '' @ name @ context_info ctx @ [10]
            @ py ''Search Results:'' @ [10]
            @ sc @ [10]
            @ [10]
            @ py ''Based on these search results, who are the top 3 competitors of '' @ name
            @ py ''?''))"

definition competitor_synthesize ::
  "world \<Rightarrow> lib \<Rightarrow> pstr \<Rightarrow> pydict list \<Rightarrow> pstr option \<Rightarrow> pstr io" where
  "competitor_synthesize w l name rs ctx =
     thenM (log_call (Synthesize Competitor name rs ctx))
    (bindM (liftE (competitor_user_msg l name rs ctx)) (\<lambda>user_msg.
       chat w COMPETITOR_SYNTHESIZE_PROMPT user_msg False))"

definition FOUNDER_SYNTHESIZE_PROMPT :: pstr where
  "FOUNDER_SYNTHESIZE_PROMPT = concat
    [py ''You are a company research analyst focused on leadership teams.'' @ [10],
     [10],
     py ''Given search results about a company'' @ [39] @ py ''s founders/leadership, provide a concise summary.'' @ [10],
     [10],
     py ''IMPORTANT: If company context is provided, use it to ensure you are analyzing the CORRECT company.'' @ [10],
     py ''There may be multiple companies with similar names - focus only on the verified target company.'' @ [10],
     [10],
     py ''Include:'' @ [10],
     py ''- Founder name(s) and brief background'' @ [10],
     py ''- Current CEO (if different from founder)'' @ [10],
     py ''- Notable leadership team members (if found)'' @ [10],
     [10],
     py ''Keep it concise - a short paragraph per person. Focus on facts from the search results.'' @ [10]]"

definition founder_user_msg :: "lib \<Rightarrow> pstr \<Rightarrow> pydict list \<Rightarrow> pstr option \<Rightarrow> error + pstr" where
  "founder_user_msg l name rs ctx =
     bindE (search_context l rs) (\<lambda>sc.
       Inr (py ''Company: '' @ name @ context_info ctx @ [10]
            @ py ''Search Results:'' @ [10]
            @ sc @ [10]
            @ [10]
            @ py ''Based on these search results, who founded '' @ name
            @ py '' and who leads it now?''))"

definition founder_synthesize ::
  "world \<Rightarrow> lib \<Rightarrow> pstr \<Rightarrow> pydict list \<Rightarrow> pstr option \<Rightarrow> pstr io" where
  "founder_synthesize w l name rs ctx =
     thenM (log_call (Synthesize Founder name rs ctx))
    (bindM (liftE (founder_user_msg l name rs ctx)) (\<lambda>user_msg.
       chat w FOUNDER_SYNTHESIZE_PROMPT user_msg False))"

definition BUSINESS_SYNTHESIZE_PROMPT :: pstr where
  "BUSINESS_SYNTHESIZE_PROMPT = concat
    [py ''You are a business analyst providing company overviews.'' @ [10],
     [10],
     py ''Given search results about a company, provide a concise business overview covering:'' @ [10],
     py ''- What the company does (core product/service)'' @ [10],
     py ''- Target market / customers'' @ [10],
     py ''- Business model (how they make money)'' @ [10],
     py ''- Notable facts (funding stage, size, key metrics if available)'' @ [10],
     [10],
     py ''IMPORTANT: If company context is provided, use it to ensure you are analyzing the CORRECT company.'' @ [10],
     py ''There may be multiple companies with similar names - focus only on the verified target company.'' @ [10],
     [10],
     py ''Keep it to 3-4 short paragraphs. Be factual and specific based on the search results.'' @ [10]]"

definition business_user_msg :: "lib \<Rightarrow> pstr \<Rightarrow> pydict list \<Rightarrow> pstr option \<Rightarrow> error + pstr" where
  "business_user_msg l name rs ctx =
     bindE (search_context l rs) (\<lambda>sc.
       Inr (py ''Company: '' @ name @ context_info ctx @ [10]
            @ py ''Search Results:'' @ [10]
            @ sc @ [10]
            @ [10]
            @ py ''Based on these search results, provide a business overview of '' @ name
            @ py ''.''))"

definition business_synthesize ::
  "world \<Rightarrow> lib \<Rightarrow> pstr \<Rightarrow> pydict list \<Rightarrow> pstr option \<Rightarrow> pstr io" where
  "business_synthesize w l name rs ctx =
     thenM (log_call (Synthesize Business name rs ctx))
    (bindM (liftE (business_user_msg l name rs ctx)) (\<lambda>user_msg.
       chat w BUSINESS_SYNTHESIZE_PROMPT user_msg False))"

section \<open>Router (agents/router.py)\<close>

definition ROUTER_SYSTEM_PROMPT :: pstr where
  "ROUTER_SYSTEM_PROMPT = concat
    [py ''You are an intent router for a company intelligence system.'' @ [10],
     [10],
     py ''Given a user'' @ [39] @ py ''s query about a company, determine:'' @ [10],
     py ''1. The intent type (one of: competitor_analysis, founder_lookup, business_overview)'' @ [10],
     py ''2. Your reasoning for this classification'' @ [10],
     py ''3. 1-2 search queries that would help answer the user'' @ [39] @ py ''s question'' @ [10],
     [10],
     py ''IMPORTANT: If company_context is provided, use it to make your search queries more specific.'' @ [10],
     py ''Include distinguishing details (industry, location, website domain) in search queries to avoid confusion with similarly-named companies.'' @ [10],
     [10],
     py ''Respond in this exact JSON format:'' @ [10],
     py ''{'' @ [10],
     py ''    '' @ [34] @ py ''intent'' @ [34] @ py '': '' @ [34] @ py ''competitor_analysis'' @ [34] @ py '' | '' @ [34] @ py ''founder_lookup'' @ [34] @ py '' | '' @ [34] @ py ''business_overview'' @ [34] @ py '','' @ [10],
     py ''    '' @ [34] @ py ''reasoning'' @ [34] @ py '': '' @ [34] @ py ''Brief explanation of why you chose this intent'' @ [34] @ py '','' @ [10],
     py ''    '' @ [34] @ py ''search_queries'' @ [34] @ py '': ['' @ [34] @ py ''query 1'' @ [34] @ py '', '' @ [34] @ py ''query 2'' @ [34] @ py '']'' @ [10],
     py ''}'' @ [10],
     [10],
     py ''Rules:'' @ [10],
     py ''- If the user asks about competitors, rivals, alternatives, or similar companies '' @ [8594] @ py '' competitor_analysis'' @ [10],
     py ''- If the user asks about founders, CEO, team, leadership, or who started it '' @ [8594] @ py '' founder_lookup'' @ [10],
     py ''- If the user asks what the company does, their products, business model, or anything else '' @ [8594] @ py '' business_overview'' @ [10]]"

definition VERIFY_COMPANY_PROMPT :: pstr where
  "VERIFY_COMPANY_PROMPT = concat
    [py ''You are a company identification specialist.'' @ [10],
     [10],
     py ''Given search results about a company, analyze and extract:'' @ [10],
     py ''1. The actual identity of the target company (based on website if provided)'' @ [10],
     py ''2. Any other companies with similar names that appeared in search results'' @ [10],
     py ''3. Key distinguishing information about the target company'' @ [10],
     [10],
     py ''Respond in this exact JSON format:'' @ [10],
     py ''{'' @ [10],
     py ''    '' @ [34] @ py ''target_company'' @ [34] @ py '': {'' @ [10],
     py ''        '' @ [34] @ py ''name'' @ [34] @ py '': '' @ [34] @ py ''Official company name'' @ [34] @ py '','' @ [10],
     py ''        '' @ [34] @ py ''description'' @ [34] @ py '': '' @ [34] @ py ''What this company does (1-2 sentences)'' @ [34] @ py '','' @ [10],
     py ''        '' @ [34] @ py ''industry'' @ [34] @ py '': '' @ [34] @ py ''Primary industry'' @ [34] @ py '','' @ [10],
     py ''        '' @ [34] @ py ''distinguishing_info'' @ [34] @ py '': '' @ [34] @ py ''Key facts that distinguish this from similar-named companies'' @ [34] @ [10],
     py ''    },'' @ [10],
     py ''    '' @ [34] @ py ''similar_companies'' @ [34] @ py '': ['' @ [10],
     py ''        {'' @ [34] @ py ''name'' @ [34] @ py '': '' @ [34] @ py ''Similar Company 1'' @ [34] @ py '', '' @ [34] @ py ''description'' @ [34] @ py '': '' @ [34] @ py ''Brief description'' @ [34] @ py ''},'' @ [10],
     py ''        {'' @ [34] @ py ''name'' @ [34] @ py '': '' @ [34] @ py ''Similar Company 2'' @ [34] @ py '', '' @ [34] @ py ''description'' @ [34] @ py '': '' @ [34] @ py ''Brief description'' @ [34] @ py ''}'' @ [10],
     py ''    ],'' @ [10],
     py ''    '' @ [34] @ py ''confidence'' @ [34] @ py '': '' @ [34] @ py ''high'' @ [34] @ py '' | '' @ [34] @ py ''medium'' @ [34] @ py '' | '' @ [34] @ py ''low'' @ [34] @ [10],
     py ''}'' @ [10],
     [10],
     py ''If the search results clearly identify the company via the website, confidence should be '' @ [34] @ py ''high'' @ [34] @ py ''.'' @ [10],
     py ''List any other companies with similar names found in the results under similar_companies.'' @ [10]]"

text \<open>
  One element of the comprehension that builds \<open>similar_names\<close>: \<open>None\<close> when the
  filter \<open>if s.get("name")\<close> drops the element.
\<close>

definition similar_name :: "json \<Rightarrow> error + pstr option" where
  "similar_name s =
     bindE (py_get s (py ''name'') JNull) (\<lambda>n.
       if truthy n then
         bindE (py_get s (py ''name'') (JStr [])) (\<lambda>a.
         bindE (py_add_str a (JStr (py '': ''))) (\<lambda>ab.
         bindE (py_get s (py ''description'') (JStr [])) (\<lambda>d.
         bindE (py_add_str (JStr ab) d) (\<lambda>r. Inr (Some r)))))
       else Inr None)"

definition similar_names :: "json \<Rightarrow> error + pstr list" where
  "similar_names similar =
     bindE (py_iter similar) (\<lambda>items.
     bindE (mapE similar_name items) (\<lambda>ns. Inr (List.map_filter (\<lambda>n. n) ns)))"

text \<open>The description, extended by the industry and the distinguishing facts.\<close>

definition describe_target :: "lib \<Rightarrow> json \<Rightarrow> error + json" where
  "describe_target l target =
     bindE (py_get target (py ''description'') (JStr [])) (\<lambda>d0.
     bindE (py_get target (py ''industry'') JNull) (\<lambda>ind.
     bindE (if truthy ind
            then py_iadd_str d0 (py '' (Industry: '' @ py_format l ind @ py '')'')
            else Inr d0) (\<lambda>d1.
     bindE (py_get target (py ''distinguishing_info'') JNull) (\<lambda>info.
       if truthy info then py_iadd_str d1 (py '' - '' @ py_format l info) else Inr d1))))"

definition verify_user_msg :: "pstr \<Rightarrow> pstr \<Rightarrow> pstr \<Rightarrow> pstr" where
  "verify_user_msg name site sc =
     py ''Target Company: '' @ name @ [10]
     @ py ''Website: '' @ site @ [10]
     @ [10]
     @ py ''Search Results:'' @ [10]
     @ sc @ [10]
     @ [10]
     @ py ''Analyze these results to identify the target company and any similarly-named companies.''"

definition verify_search_query :: "pstr \<Rightarrow> pstr \<Rightarrow> pstr" where
  "verify_search_query name site =
     py ''site:'' @ site @ py '' OR '' @ [34] @ site @ [34] @ py '' '' @ name"

definition verify_company ::
  "world \<Rightarrow> lib \<Rightarrow> pstr \<Rightarrow> pstr \<Rightarrow> (CompanyVerification \<times> pydict list) io" where
  "verify_company w l name site =
     thenM (log_call (VerifyCompany name site))
    (bindM (search w (verify_search_query name site) 3) (\<lambda>results.
     bindM (search w (name @ py '' company'') 3) (\<lambda>name_results.
     bindM (returnM (results @ name_results)) (\<lambda>all_results.
       if all_results = [] then
         returnM (\<lparr>verified = False,
                   company_description = py ''Could not verify '' @ name,
                   similar_companies = [],
                   verification_method = py ''no search results''\<rparr>, [])
       else
         bindM (liftE (search_context l all_results)) (\<lambda>sc.
         bindM (chat w VERIFY_COMPANY_PROMPT (verify_user_msg name site sc) True) (\<lambda>raw.
         bindM (liftE (parse_json_response l raw)) (\<lambda>data.
         bindM (liftE (py_get data (py ''target_company'') (JObj []))) (\<lambda>target.
         bindM (liftE (py_get data (py ''similar_companies'') (JArr []))) (\<lambda>similar.
         bindM (liftE (similar_names similar)) (\<lambda>names.
         bindM (liftE (describe_target l target)) (\<lambda>description.
         bindM (liftE (py_get data (py ''confidence'') JNull)) (\<lambda>confidence.
         bindM (liftE (validate_str description)) (\<lambda>description'.
           returnM (\<lparr>verified = (confidence \<in> set [JStr (py ''high''), JStr (py ''medium'')]),
                     company_description = description',
                     similar_companies = names,
                     verification_method = py ''website verification via '' @ site\<rparr>,
                    all_results))))))))))))))"

text \<open>\<open>x or default\<close> for an optional string.\<close>

fun or_else :: "pstr option \<Rightarrow> pstr \<Rightarrow> pstr" where
  "or_else None d = d"
| "or_else (Some s) d = (if s \<noteq> [] then s else d)"

definition route_user_message :: "pstr \<Rightarrow> pstr option \<Rightarrow> pstr \<Rightarrow> pstr option \<Rightarrow> pstr" where
  "route_user_message name site user_query ctx =
     py ''Company: '' @ name @ [10]
     @ py ''Website: '' @ or_else site (py ''not provided'')
     @ (case ctx of
          Some c \<Rightarrow> (if c \<noteq> [] then [10] @ py ''Verified Company Context: '' @ c else [])
        | None \<Rightarrow> [])
     @ [10]
     @ py ''User'' @ [39] @ py ''s question: '' @ user_query"

text \<open>The \<open>RouterResult\<close> built from the parsed reply.\<close>

definition router_result :: "pstr \<Rightarrow> pstr \<Rightarrow> pstr option \<Rightarrow> json \<Rightarrow> error + RouterResult" where
  "router_result name user_query ctx data =
     bindE (py_getitem data (py ''intent'')) (\<lambda>iv.
     bindE (IntentType_of iv) (\<lambda>i.
     bindE (py_getitem data (py ''reasoning'')) (\<lambda>rv.
     bindE (py_get data (py ''search_queries'') (JArr [JStr (name @ py '' '' @ user_query)])) (\<lambda>qv.
     bindE (validate_str rv) (\<lambda>r.
     bindE (validate_str_list qv) (\<lambda>qs.
       Inr \<lparr>intent = i, reasoning = r, search_queries = qs, company_context = ctx\<rparr>))))))"

definition route ::
  "world \<Rightarrow> lib \<Rightarrow> pstr \<Rightarrow> pstr option \<Rightarrow> pstr \<Rightarrow> pstr option \<Rightarrow> RouterResult io" where
  "route w l name site user_query ctx =
     thenM (log_call (Route name site user_query ctx))
    (bindM (chat w ROUTER_SYSTEM_PROMPT (route_user_message name site user_query ctx) True) (\<lambda>raw.
     bindM (liftE (parse_json_response l raw)) (\<lambda>data.
       liftE (router_result name user_query ctx data))))"

section \<open>Orchestrator (orchestrator.py)\<close>

text \<open>\<open>enumerate(xs, 1)\<close>.\<close>

definition enumerate1 :: "'a list \<Rightarrow> (nat \<times> 'a) list" where
  "enumerate1 xs = zip [1..<Suc (length xs)] xs"

text \<open>Step 0 when a website is given: verification, and the context it yields.\<close>

definition verification_verdict :: "pstr \<Rightarrow> CompanyVerification \<Rightarrow> (pstr option) io" where
  "verification_verdict site verification =
     (if verified verification then
        thenM (yield (make_event (py ''Router'') (py ''decision'')
                 ([9989] @ py '' Company verified via '' @ site)))
       (thenM (yield (make_event (py ''Router'') (py ''decision'')
                 ([127970] @ py '' Target: '' @ company_description verification)))
          (returnM (Some (company_description verification))))
      else
        thenM (yield (make_event (py ''Router'') (py ''thinking'')
                 ([9888, 65039] @ py '' Could not fully verify company, proceeding with available info'')))
          (returnM (if company_description verification \<noteq> []
                    then Some (company_description verification) else None)))"

definition step0_verify :: "world \<Rightarrow> lib \<Rightarrow> pstr \<Rightarrow> pstr \<Rightarrow> pstr \<Rightarrow> (pstr option) io" where
  "step0_verify w l company site user_query =
     thenM (yield_all
       [make_event (py ''Router'') (py ''thinking'')
          ([128221] @ py '' Received request: analyze '' @ [39] @ company @ [39] @ py '' (''
           @ site @ py '') - '' @ [34] @ user_query @ [34]),
        make_event (py ''Router'') (py ''tool_call'')
          ([128269] @ py '' Verifying company identity via website: '' @ site),
        make_event (py ''Router'') (py ''tool_call'')
          ([128269] @ py '' Searching: site:'' @ site @ py '' OR '' @ [34] @ site @ [34]
           @ py '' '' @ company),
        make_event (py ''Router'') (py ''tool_call'')
          ([128269] @ py '' Searching: '' @ company @ py '' company (to find similar names)'')])
    (bindM (verify_company w l company site) (\<lambda>(verification, verify_results).
     thenM (yield (make_event (py ''Router'') (py ''tool_result'')
              ([128196] @ py '' Found '' @ py_nat_str (length verify_results)
               @ py '' results for verification'')))
    (thenM (if similar_companies verification \<noteq> [] then
              thenM (yield (make_event (py ''Router'') (py ''thinking'')
                       ([9888, 65039] @ py '' Found companies with similar names:'')))
                (forM (take 3 (similar_companies verification)) (\<lambda>similar.
                   yield (make_event (py ''Router'') (py ''thinking'')
                     (py ''   '' @ [8226] @ py '' '' @ similar))))
            else returnM ())
       (verification_verdict site verification))))"

definition step0_skip :: "pstr \<Rightarrow> pstr \<Rightarrow> (pstr option) io" where
  "step0_skip company user_query =
     thenM (yield_all
       [make_event (py ''Router'') (py ''thinking'')
          ([128221] @ py '' Received request: analyze '' @ [39] @ company @ [39] @ py '' - ''
           @ [34] @ user_query @ [34]),
        make_event (py ''Router'') (py ''thinking'')
          ([128161] @ py '' Tip: Provide website URL for more accurate results when company name is common'')])
       (returnM None)"

text \<open>\<open>if website:\<close> holds for a non-empty string only.\<close>

definition step0 :: "world \<Rightarrow> lib \<Rightarrow> pstr \<Rightarrow> pstr option \<Rightarrow> pstr \<Rightarrow> (pstr option) io" where
  "step0 w l company site_opt user_query =
     (case site_opt of
        None \<Rightarrow> step0_skip company user_query
      | Some site \<Rightarrow>
          (if site \<noteq> [] then step0_verify w l company site user_query
           else step0_skip company user_query))"

definition intent_labels :: "(IntentType \<times> pstr) list" where
  "intent_labels =
     [(COMPETITOR, [127970] @ py '' Competitor Analysis''),
      (FOUNDER, [128100] @ py '' Founder Lookup''),
      (BUSINESS, [128202] @ py '' Business Overview'')]"

text \<open>Step 1: the router's classification and its three events.\<close>

definition step1 ::
  "world \<Rightarrow> lib \<Rightarrow> pstr \<Rightarrow> pstr option \<Rightarrow> pstr \<Rightarrow> pstr option \<Rightarrow> RouterResult io" where
  "step1 w l company site_opt user_query ctx =
     thenM (yield (make_event (py ''Router'') (py ''thinking'')
              ([129300] @ py '' Analyzing user intent... What does the user want to know?'')))
    (bindM (route w l company site_opt user_query ctx) (\<lambda>result.
     thenM (yield_all
       [make_event (py ''Router'') (py ''thinking'')
          ([128173] @ py '' Reasoning: '' @ reasoning result),
        make_event (py ''Router'') (py ''decision'')
          ([9989] @ py '' Intent identified: ''
           @ (case map_of intent_labels (intent result) of
                Some label \<Rightarrow> label
              | None \<Rightarrow> [10067] @ py '' Unknown'')),
        make_event (py ''Router'') (py ''decision'')
          ([128203] @ py '' Search queries planned: '' @ json_dumps l (search_queries result))])
       (returnM result)))"

text \<open>Step 2: the specialist, looked up by intent with the Business Agent as default.\<close>

type_synonym synthesize_fn = "world \<Rightarrow> lib \<Rightarrow> pstr \<Rightarrow> pydict list \<Rightarrow> pstr option \<Rightarrow> pstr io"

definition synthesize_map :: "(IntentType \<times> pstr \<times> synthesize_fn) list" where
  "synthesize_map =
     [(COMPETITOR, (py ''Competitor Agent'', competitor_synthesize)),
      (FOUNDER, (py ''Founder Agent'', founder_synthesize)),
      (BUSINESS, (py ''Business Agent'', business_synthesize))]"

definition dispatch :: "IntentType \<Rightarrow> pstr \<times> synthesize_fn" where
  "dispatch i =
     (case map_of synthesize_map i of
        Some entry \<Rightarrow> entry
      | None \<Rightarrow> (py ''Business Agent'', business_synthesize))"

definition step2 :: "pstr \<Rightarrow> pstr option \<Rightarrow> unit io" where
  "step2 agent_name ctx =
     thenM (yield (make_event agent_name (py ''thinking'')
              ([128640] @ py '' '' @ agent_name @ py '' activated! Starting research...'')))
       (case ctx of
          None \<Rightarrow> returnM ()
        | Some c \<Rightarrow>
            (if c \<noteq> [] then
               yield (make_event agent_name (py ''thinking'')
                 ([128204] @ py '' Using verified company context: '' @ take 100 c @ py ''...''))
             else returnM ()))"

text \<open>Step 3: the searches. The three events shown for result \<open>j\<close> of a search.\<close>

definition result_events :: "lib \<Rightarrow> nat \<times> pydict \<Rightarrow> unit io" where
  "result_events l jr =
     (case jr of (j, r) \<Rightarrow>
     bindM (liftE (bindE (py_get (JObj r) (py ''title'') (JStr (py ''No title''))) (py_slice 60)))
       (\<lambda>title.
     bindM (liftE (py_get (JObj r) (py ''url'') (JStr []))) (\<lambda>url.
     bindM (liftE (bindE (bindE (py_get (JObj r) (py ''content'') (JStr [])) (py_slice 100))
                     py_replace_newlines)) (\<lambda>content_preview.
       yield_all
         [make_event (py ''Tavily'') (py ''tool_result'')
            (py ''   '' @ [128196] @ py '' Result '' @ py_nat_str j @ py '': ''
             @ py_format l title),
          make_event (py ''Tavily'') (py ''tool_result'')
            (py ''      '' @ [128279] @ py '' '' @ py_format l url),
          make_event (py ''Tavily'') (py ''tool_result'')
            (py ''      '' @ [128172] @ py '' '' @ [34] @ py_format l content_preview
             @ py ''...'' @ [34])]))))"

text \<open>
  The body of the loop for query \<open>i\<close>, up to the results it found, and the loop, which
  extends \<open>all_search_results\<close> by them.
\<close>

definition search_step :: "world \<Rightarrow> lib \<Rightarrow> nat \<times> pstr \<Rightarrow> (pydict list) io" where
  "search_step w l iq =
     (case iq of (i, search_query) \<Rightarrow>
     thenM (yield (make_event (py ''Tavily'') (py ''tool_call'')
              ([128269] @ py '' Search ['' @ py_nat_str i @ py '']: '' @ [34] @ search_query
               @ [34])))
    (thenM (yield (make_event (py ''Tavily'') (py ''thinking'')
              ([128225] @ py '' Sending request to Tavily API...'')))
    (bindM (search w search_query 3) (\<lambda>search_results.
     bindM history (\<lambda>h.
     thenM (yield (make_event (py ''Tavily'') (py ''tool_result'')
              ([9201, 65039] @ py '' Tavily responded in '' @ elapsed_text w h
               @ py ''s - Found '' @ py_nat_str (length search_results) @ py '' results'')))
    (thenM (forM (enumerate1 search_results) (result_events l))
       (returnM search_results)))))))"

fun search_loop ::
  "world \<Rightarrow> lib \<Rightarrow> (nat \<times> pstr) list \<Rightarrow> pydict list \<Rightarrow> (pydict list) io" where
  "search_loop w l [] all_search_results = returnM all_search_results"
| "search_loop w l (iq # rest) all_search_results =
     bindM (search_step w l iq) (\<lambda>search_results.
       search_loop w l rest (all_search_results @ search_results))"

definition step3 :: "world \<Rightarrow> lib \<Rightarrow> pstr \<Rightarrow> RouterResult \<Rightarrow> (pydict list) io" where
  "step3 w l agent_name result =
     bindM (search_loop w l (enumerate1 (take 2 (search_queries result))) [])
       (\<lambda>all_search_results.
     thenM (yield (make_event agent_name (py ''tool_result'')
              ([128202] @ py '' Total: '' @ py_nat_str (length all_search_results)
               @ py '' search results collected'')))
       (returnM all_search_results))"

text \<open>Steps 4 and 5: synthesis, the final answer and the completion event.\<close>

definition step4 ::
  "world \<Rightarrow> lib \<Rightarrow> pstr \<Rightarrow> synthesize_fn \<Rightarrow> pstr \<Rightarrow> pydict list \<Rightarrow> pstr option \<Rightarrow> pstr io" where
  "step4 w l agent_name synthesize company all_search_results ctx =
     thenM (yield (make_event agent_name (py ''thinking'')
              ([129504] @ py '' Synthesizing search results with Claude...'')))
       (synthesize w l company all_search_results ctx)"

definition step5 :: "pstr \<Rightarrow> pstr \<Rightarrow> unit io" where
  "step5 agent_name answer =
     thenM (yield (make_event agent_name (py ''final_answer'') answer))
       (yield (make_event (py ''System'') (py ''done'') ([9989] @ py '' Analysis complete!'')))"

text \<open>Steps 2 to 5, once the router has returned \<open>result\<close>.\<close>

definition specialist_steps ::
  "world \<Rightarrow> lib \<Rightarrow> UserRequest \<Rightarrow> pstr option \<Rightarrow> RouterResult \<Rightarrow> unit io" where
  "specialist_steps w l request ctx result =
     (case dispatch (intent result) of (agent_name, synthesize) \<Rightarrow>
     thenM (step2 agent_name ctx)
    (bindM (step3 w l agent_name result) (\<lambda>all_search_results.
     bindM (step4 w l agent_name synthesize (company_name request) all_search_results ctx)
       (step5 agent_name))))"

text \<open>The body of the \<open>try\<close> block.\<close>

definition pipeline_body :: "world \<Rightarrow> lib \<Rightarrow> UserRequest \<Rightarrow> unit io" where
  "pipeline_body w l request =
     bindM (step0 w l (company_name request) (website request) (query request)) (\<lambda>ctx.
     bindM (step1 w l (company_name request) (website request) (query request) ctx) (\<lambda>result.
       specialist_steps w l request ctx result))"

text \<open>The handler \<open>except Exception as e\<close>: two events, the message and the traceback.\<close>

definition on_exception :: "lib \<Rightarrow> error \<Rightarrow> unit io" where
  "on_exception l e =
     thenM (yield (make_event (py ''System'') (py ''error'')
              ([10060] @ py '' Error: '' @ exc_str l e)))
       (yield (make_event (py ''System'') (py ''error'') (format_exc l e)))"

definition try_except :: "unit io \<Rightarrow> (error \<Rightarrow> unit io) \<Rightarrow> unit io" where
  "try_except m h = (\<lambda>s. case m s of (Inl e, s') \<Rightarrow> h e s' | (Inr x, s') \<Rightarrow> (Inr x, s'))"

text \<open>
  A run of the generator to exhaustion, from an empty stream and an empty log: the
  events of the result are the stream the client reads. The pauses between the events
  (\<open>asyncio.sleep\<close>) and the worker thread the blocking calls run on
  (\<open>asyncio.to_thread\<close>) change neither the events nor their order, and are left out.
\<close>

definition fresh :: trace where
  "fresh = \<lparr>events = [], calls = []\<rparr>"

definition run_pipeline :: "world \<Rightarrow> lib \<Rightarrow> UserRequest \<Rightarrow> trace" where
  "run_pipeline w l request =
     snd (try_except (pipeline_body w l request) (on_exception l) fresh)"

section \<open>Assertions about runs\<close>

text \<open>A run fails when the body of the \<open>try\<close> block raises.\<close>

definition pipeline_raises :: "world \<Rightarrow> lib \<Rightarrow> UserRequest \<Rightarrow> bool" where
  "pipeline_raises w l request = isl (fst (pipeline_body w l request fresh))"

subsection \<open>Events\<close>

text \<open>The kinds of the events that report progress; \<open>done\<close> and \<open>error\<close> are terminal.\<close>

definition progress_kinds :: "pstr list" where
  "progress_kinds =
     [py ''thinking'', py ''tool_call'', py ''tool_result'', py ''decision'', py ''final_answer'']"

definition is_progress :: "AgentEvent \<Rightarrow> bool" where
  "is_progress ev \<longleftrightarrow> event ev \<in> set progress_kinds"

definition is_error :: "AgentEvent \<Rightarrow> bool" where
  "is_error ev \<longleftrightarrow> event ev = py ''error''"

definition done_event :: AgentEvent where
  "done_event = make_event (py ''System'') (py ''done'') ([9989] @ py '' Analysis complete!'')"


subsection \<open>Calls\<close>

text \<open>What a computation adds to the log of calls.\<close>

definition new_calls :: "'a io \<Rightarrow> trace \<Rightarrow> call list" where
  "new_calls m s = drop (length (calls s)) (calls (snd (m s)))"

text \<open>
  The kinds of calls; the searches of a log (query and \<open>max_results\<close>), the prompts
  handed to \<open>chat\<close> (system prompt and user message) and the result lists handed to the
  specialists.
\<close>

datatype call_kind = KVerify | KRoute | KSearch | KSynthesize | KChat | KTavily | KAnthropic

fun kind_of :: "call \<Rightarrow> call_kind" where
  "kind_of (VerifyCompany n s) = KVerify"
| "kind_of (Route n s q c) = KRoute"
| "kind_of (Search q n) = KSearch"
| "kind_of (Synthesize a n rs c) = KSynthesize"
| "kind_of (Chat p u j) = KChat"
| "kind_of (TavilyRequest q n) = KTavily"
| "kind_of (AnthropicRequest p u) = KAnthropic"

definition is_llm_call :: "call \<Rightarrow> bool" where
  "is_llm_call c \<longleftrightarrow> kind_of c = KChat \<or> kind_of c = KAnthropic"

fun searches :: "call list \<Rightarrow> (pstr \<times> nat) list" where
  "searches [] = []"
| "searches (Search q n # cs) = (q, n) # searches cs"
| "searches (c # cs) = searches cs"

fun prompts :: "call list \<Rightarrow> (pstr \<times> pstr) list" where
  "prompts [] = []"
| "prompts (Chat p u j # cs) = (p, u) # prompts cs"
| "prompts (c # cs) = prompts cs"

fun synthesized_results :: "call list \<Rightarrow> pydict list list" where
  "synthesized_results [] = []"
| "synthesized_results (Synthesize a n rs c # cs) = rs # synthesized_results cs"
| "synthesized_results (c # cs) = synthesized_results cs"

text \<open>
  Counting calls by kind: \<open>adds wt n m\<close> says that \<open>m\<close> adds calls of total weight at
  most \<open>n\<close>, for a weight given to each kind of call. \<open>max_calls\<close> is how often a run
  makes a call of each kind when nothing is repeated: one verification, one routing,
  one synthesis, two searches for the verification and two planned ones, and the LLM
  calls of the verification, the router and the specialist.
\<close>

definition cost :: "(call_kind \<Rightarrow> nat) \<Rightarrow> call list \<Rightarrow> nat" where
  "cost wt cs = sum_list (map (\<lambda>c. wt (kind_of c)) cs)"

definition adds :: "(call_kind \<Rightarrow> nat) \<Rightarrow> nat \<Rightarrow> 'a io \<Rightarrow> bool" where
  "adds wt n m \<longleftrightarrow> (\<forall>s. cost wt (calls (snd (m s))) \<le> cost wt (calls s) + n)"

definition count_kind :: "call_kind \<Rightarrow> call list \<Rightarrow> nat" where
  "count_kind k cs = length (filter (\<lambda>c. kind_of c = k) cs)"

fun max_calls :: "call_kind \<Rightarrow> nat" where
  "max_calls KVerify = 1"
| "max_calls KRoute = 1"
| "max_calls KSynthesize = 1"
| "max_calls KSearch = 4"
| "max_calls KTavily = 4"
| "max_calls KChat = 3"
| "max_calls KAnthropic = 3"

text \<open>
  A call made without a company context: no verification, and \<open>None\<close> as the context
  of \<open>route\<close> and of \<open>synthesize\<close>. An assertion on the results a specialist is called
  with.
\<close>

fun without_context :: "call \<Rightarrow> bool" where
  "without_context (VerifyCompany n s) = False"
| "without_context (Route n s q c) = (c = None)"
| "without_context (Synthesize a n rs c) = (c = None)"
| "without_context _ = True"

fun synthesized_with :: "(pydict list \<Rightarrow> bool) \<Rightarrow> call \<Rightarrow> bool" where
  "synthesized_with P (Synthesize a n rs c) = P rs"
| "synthesized_with P _ = True"

subsection \<open>Search results\<close>

text \<open>
  What a slice \<open>[:n]\<close> can give: a string of at most \<open>n\<close> characters or a list of at
  most \<open>n\<close> elements. And the first of the two alone: a string of at most \<open>n\<close>
  characters.
\<close>

fun sliced :: "nat \<Rightarrow> json \<Rightarrow> bool" where
  "sliced n (JStr s) = (length s \<le> n)"
| "sliced n (JArr xs) = (length xs \<le> n)"
| "sliced n _ = False"

fun short_text :: "nat \<Rightarrow> json \<Rightarrow> bool" where
  "short_text n (JStr s) = (length s \<le> n)"
| "short_text n _ = False"

fun is_str :: "json \<Rightarrow> bool" where
  "is_str (JStr s) = True"
| "is_str _ = False"

text \<open>
  The items of a provider response, as \<open>search\<close> reads them, and a provider that
  returns no more items than \<open>max_results\<close> asks for.
\<close>

definition response_items :: "json \<Rightarrow> error + json list" where
  "response_items response = bindE (py_get response (py ''results'') (JArr [])) py_iter"

definition honours_max_results :: "world \<Rightarrow> bool" where
  "honours_max_results w \<longleftrightarrow>
     (\<forall>h q n response items.
        tavily_search w h q n = Inr response \<longrightarrow> response_items response = Inr items \<longrightarrow>
        length items \<le> n)"

text \<open>A list that some call \<open>search(query, 3)\<close> returns in the world \<open>w\<close>.\<close>

definition search_outcome :: "world \<Rightarrow> pydict list \<Rightarrow> bool" where
  "search_outcome w rs \<longleftrightarrow> (\<exists>q s. fst (search w q 3 s) = Inr rs)"

text \<open>
  The field \<open>k\<close> of a provider item, the empty string when the item omits it; an item
  whose content is a string; and the dict \<open>search\<close> builds from an item.
\<close>

definition item_field :: "(pstr \<times> json) list \<Rightarrow> pstr \<Rightarrow> json" where
  "item_field kvs k = (case map_of kvs k of None \<Rightarrow> JStr [] | Some v \<Rightarrow> v)"

definition text_item :: "json \<Rightarrow> bool" where
  "text_item item \<longleftrightarrow>
     (case item of JObj kvs \<Rightarrow> is_str (item_field kvs (py ''content'')) | _ \<Rightarrow> False)"

definition built_from :: "json \<Rightarrow> pydict \<Rightarrow> bool" where
  "built_from item d \<longleftrightarrow>
     (case item of
        JObj kvs \<Rightarrow>
          (case py_slice 500 (item_field kvs (py ''content'')) of
             Inr c \<Rightarrow> d = [(py ''title'', item_field kvs (py ''title'')),
                            (py ''url'', item_field kvs (py ''url'')),
                            (py ''content'', c)]
           | Inl e \<Rightarrow> False)
      | _ \<Rightarrow> False)"

text \<open>
  Two forms of a result dict. Both have exactly the keys \<open>title\<close>, \<open>url\<close> and
  \<open>content\<close>. In a \<open>text_result\<close> the content is a string of at most 500
  characters; in a \<open>wellformed_result\<close> it is what the slice \<open>[:500]\<close> gives, a string
  of at most 500 characters or a list of at most 500 elements.
\<close>

definition text_result :: "pydict \<Rightarrow> bool" where
  "text_result d \<longleftrightarrow>
     map fst d = [py ''title'', py ''url'', py ''content''] \<and>
     (case map_of d (py ''content'') of Some c \<Rightarrow> short_text 500 c | None \<Rightarrow> False)"

definition wellformed_result :: "pydict \<Rightarrow> bool" where
  "wellformed_result d \<longleftrightarrow>
     map fst d = [py ''title'', py ''url'', py ''content''] \<and>
     (case map_of d (py ''content'') of Some c \<Rightarrow> sliced 500 c | None \<Rightarrow> False)"

subsection \<open>Assertions on states\<close>

text \<open>
  An assertion that a computation keeps, whatever it returns; an assertion that stays
  true when an event is yielded or a call is made; and a Hoare triple, whose
  postcondition reads the outcome.
\<close>

definition preserves :: "(trace \<Rightarrow> bool) \<Rightarrow> 'a io \<Rightarrow> bool" where
  "preserves I m \<longleftrightarrow> (\<forall>s. I s \<longrightarrow> I (snd (m s)))"

definition accepts_event :: "(trace \<Rightarrow> bool) \<Rightarrow> AgentEvent \<Rightarrow> bool" where
  "accepts_event I ev \<longleftrightarrow> (\<forall>s. I s \<longrightarrow> I (s\<lparr>events := events s @ [ev]\<rparr>))"

definition accepts_call :: "(trace \<Rightarrow> bool) \<Rightarrow> call \<Rightarrow> bool" where
  "accepts_call I c \<longleftrightarrow> (\<forall>s. I s \<longrightarrow> I (s\<lparr>calls := calls s @ [c]\<rparr>))"

definition hoare :: "(trace \<Rightarrow> bool) \<Rightarrow> 'a io \<Rightarrow> (error + 'a \<Rightarrow> trace \<Rightarrow> bool) \<Rightarrow> bool" where
  "hoare P m Q \<longleftrightarrow> (\<forall>s. P s \<longrightarrow> Q (fst (m s)) (snd (m s)))"

text \<open>
  The assertions the proofs carry through a run: every event so far reports progress;
  the outcome of the \<open>try\<close> block; every call so far is made without a company
  context; the first call of the run; a specialist has been called; every specialist
  was given results that satisfy \<open>P\<close>.
\<close>

definition progress_only :: "trace \<Rightarrow> bool" where
  "progress_only s \<longleftrightarrow> list_all is_progress (events s)"

definition body_outcome :: "error + unit \<Rightarrow> trace \<Rightarrow> bool" where
  "body_outcome r s \<longleftrightarrow>
     (case r of
        Inl e \<Rightarrow> progress_only s
      | Inr u \<Rightarrow> events s \<noteq> [] \<and> last (events s) = done_event \<and>
                 list_all is_progress (butlast (events s)))"

definition context_free :: "trace \<Rightarrow> bool" where
  "context_free s \<longleftrightarrow> list_all without_context (calls s)"

definition first_call :: "call \<Rightarrow> trace \<Rightarrow> bool" where
  "first_call c s \<longleftrightarrow> calls s \<noteq> [] \<and> hd (calls s) = c"

definition synthesized :: "pstr \<Rightarrow> pstr option \<Rightarrow> trace \<Rightarrow> bool" where
  "synthesized n ctx s \<longleftrightarrow> list_ex (\<lambda>c. \<exists>a rs. c = Synthesize a n rs ctx) (calls s)"

definition specialists_given :: "(pydict list \<Rightarrow> bool) \<Rightarrow> trace \<Rightarrow> bool" where
  "specialists_given P s \<longleftrightarrow> list_all (synthesized_with P) (calls s)"

section \<open>Example worlds\<close>

text \<open>
  A request without a website, and a library whose decoder knows one reply, which
  names the intent \<open>unknown\<close> and plans three queries.
\<close>

definition example_request :: UserRequest where
  "example_request = \<lparr>company_name = py ''Acme'', website = None, query = py ''Who runs it?''\<rparr>"

definition example_reply :: json where
  "example_reply =
     JObj [(py ''intent'', JStr (py ''unknown'')),
           (py ''reasoning'', JStr (py ''general question'')),
           (py ''search_queries'', JArr [JStr (py ''q1''), JStr (py ''q2''), JStr (py ''q3'')])]"

definition example_lib :: lib where
  "example_lib =
     \<lparr>json_loads = (\<lambda>t. if t = py ''REPLY'' then Some example_reply else None),
      json_dumps = (\<lambda>qs. py ''['' @ py_join (py '', '') qs @ py '']''),
      py_str = (\<lambda>v. py ''?''),
      exc_str = (\<lambda>e. py ''failure''),
      format_exc = (\<lambda>e. py ''Traceback'')\<rparr>"

text \<open>A library whose decoder reads the same reply as an intent and nothing else.\<close>

definition terse_lib :: lib where
  "terse_lib =
     \<lparr>json_loads = (\<lambda>t. if t = py ''REPLY''
                         then Some (JObj [(py ''intent'', JStr (py ''founder_lookup''))])
                         else None),
      json_dumps = (\<lambda>qs. py ''['' @ py_join (py '', '') qs @ py '']''),
      py_str = (\<lambda>v. py ''?''),
      exc_str = (\<lambda>e. py ''failure''),
      format_exc = (\<lambda>e. py ''Traceback'')\<rparr>"

text \<open>
  A world in which both providers answer: every search finds one item, and the LLM
  replies with the text the decoder knows.
\<close>

definition example_item :: json where
  "example_item =
     JObj [(py ''title'', JStr (py ''Acme'')), (py ''url'', JStr (py ''acme.example'')),
           (py ''content'', JStr (py ''Acme makes anvils'')), (py ''score'', JInt 1)]"

definition example_world :: world where
  "example_world =
     \<lparr>getenv = (\<lambda>h k. Some (py ''secret'')),
      tavily_search = (\<lambda>h q n. Inr (JObj [(py ''results'', JArr [example_item])])),
      messages_create = (\<lambda>h p u. Inr (py ''REPLY'')),
      elapsed_text = (\<lambda>h. py ''0.10'')\<rparr>"

text \<open>A world without API keys: every call of a provider raises.\<close>

definition offline_world :: world where
  "offline_world =
     \<lparr>getenv = (\<lambda>h k. None),
      tavily_search = (\<lambda>h q n. Inl (ExternalError (py ''unreachable''))),
      messages_create = (\<lambda>h p u. Inl (ExternalError (py ''unreachable''))),
      elapsed_text = (\<lambda>h. py ''0.00'')\<rparr>"

text \<open>A world whose searches find nothing, and one whose LLM does not reply in JSON.\<close>

definition silent_world :: world where
  "silent_world =
     \<lparr>getenv = (\<lambda>h k. Some (py ''secret'')),
      tavily_search = (\<lambda>h q n. Inr (JObj [(py ''results'', JArr [])])),
      messages_create = (\<lambda>h p u. Inr (py ''REPLY'')),
      elapsed_text = (\<lambda>h. py ''0.10'')\<rparr>"


text \<open>
  A search provider whose one item holds its content as a list of two paragraphs of
  1000 characters each.
\<close>

definition paragraph_text :: pstr where
  "paragraph_text = replicate 1000 120"

definition paragraphs_world :: world where
  "paragraphs_world =
     \<lparr>getenv = (\<lambda>h k. Some (py ''secret'')),
      tavily_search = (\<lambda>h q n. Inr (JObj [(py ''results'',
         JArr [JObj [(py ''content'', JArr [JStr paragraph_text, JStr paragraph_text])]])])),
      messages_create = (\<lambda>h p u. Inr (py ''REPLY'')),
      elapsed_text = (\<lambda>h. py ''0.10'')\<rparr>"

text \<open>
  Two search providers that know four items: one sends all four whatever
  \<open>max_results\<close> is, the other the first \<open>max_results\<close> of them.
\<close>

definition generous_world :: world where
  "generous_world =
     \<lparr>getenv = (\<lambda>h k. Some (py ''secret'')),
      tavily_search = (\<lambda>h q n. Inr (JObj [(py ''results'',
         JArr [JObj [(py ''title'', JStr (py ''A''))], JObj [(py ''title'', JStr (py ''B''))],
               JObj [(py ''title'', JStr (py ''C''))], JObj [(py ''title'', JStr (py ''D''))]])])),
      messages_create = (\<lambda>h p u. Inr (py ''REPLY'')),
      elapsed_text = (\<lambda>h. py ''0.10'')\<rparr>"

definition compliant_world :: world where
  "compliant_world =
     \<lparr>getenv = (\<lambda>h k. Some (py ''secret'')),
      tavily_search = (\<lambda>h q n. Inr (JObj [(py ''results'',
         JArr (take n
           [JObj [(py ''title'', JStr (py ''A''))], JObj [(py ''title'', JStr (py ''B''))],
            JObj [(py ''title'', JStr (py ''C''))], JObj [(py ''title'', JStr (py ''D''))]]))])),
      messages_create = (\<lambda>h p u. Inr (py ''REPLY'')),
      elapsed_text = (\<lambda>h. py ''0.10'')\<rparr>"

section \<open>Computation rules\<close>

lemma returnM_apply: "returnM x s = (Inr x, s)"
  by (simp add: returnM_def)

lemma raiseM_apply: "raiseM e s = (Inl e, s)"
  by (simp add: raiseM_def)

lemma liftE_apply: "liftE r s = (r, s)"
  by (simp add: liftE_def)

lemma history_apply: "history s = (Inr (calls s), s)"
  by (simp add: history_def)

lemma yield_apply: "yield ev s = (Inr (), s\<lparr>events := events s @ [ev]\<rparr>)"
  by (simp add: yield_def)

lemma log_call_apply: "log_call c s = (Inr (), s\<lparr>calls := calls s @ [c]\<rparr>)"
  by (simp add: log_call_def)

lemma bindM_apply:
  "bindM m f s = (case m s of (Inl e, s') \<Rightarrow> (Inl e, s') | (Inr x, s') \<Rightarrow> f x s')"
  by (simp add: bindM_def)

lemma thenM_apply:
  "thenM m k s = (case m s of (Inl e, s') \<Rightarrow> (Inl e, s') | (Inr x, s') \<Rightarrow> k s')"
  by (simp add: thenM_def bindM_def)

lemmas io_simps =
  returnM_apply raiseM_apply liftE_apply history_apply yield_apply log_call_apply
  bindM_apply thenM_apply

lemma yield_all_apply: "yield_all evs s = (Inr (), s\<lparr>events := events s @ evs\<rparr>)"
  by (induction evs arbitrary: s) (simp_all add: io_simps)

lemma py_eq_iff [simp]: "py a = py b \<longleftrightarrow> a = b"
proof -
  have "inj (of_char :: char \<Rightarrow> nat)"
    by (rule injI) simp
  then show ?thesis
    by (simp add: py_def inj_map_eq_map)
qed

lemma py_Nil_iff [simp]: "py a = [] \<longleftrightarrow> a = []"
  by (simp add: py_def)

lemma length_py [simp]: "length (py a) = length a"
  by (simp add: py_def)

section \<open>Assertions kept by every step\<close>

lemma preserves_returnM: "preserves I (returnM x)"
  by (simp add: preserves_def returnM_def)

lemma preserves_raiseM: "preserves I (raiseM e)"
  by (simp add: preserves_def raiseM_def)

lemma preserves_liftE: "preserves I (liftE r)"
  by (simp add: preserves_def liftE_def)

lemma preserves_history: "preserves I history"
  by (simp add: preserves_def history_def)

lemma preserves_bindM: "preserves I m \<Longrightarrow> (\<And>x. preserves I (f x)) \<Longrightarrow> preserves I (bindM m f)"
  by (auto simp: preserves_def bindM_def split: prod.splits sum.splits)

lemma preserves_bindM_result:
  assumes "preserves I m" and "\<And>x s. fst (m s) = Inr x \<Longrightarrow> preserves I (f x)"
  shows "preserves I (bindM m f)"
  unfolding preserves_def
proof (intro allI impI)
  fix s assume s: "I s"
  obtain r s' where ms: "m s = (r, s')" by (cases "m s")
  from assms(1) s ms have s': "I s'" by (auto simp: preserves_def)
  show "I (snd (bindM m f s))"
  proof (cases r)
    case (Inl e)
    with ms s' show ?thesis by (simp add: bindM_def)
  next
    case (Inr x)
    with ms have "fst (m s) = Inr x" by simp
    then have "preserves I (f x)" by (rule assms(2))
    with s' have "I (snd (f x s'))" by (simp add: preserves_def)
    with ms Inr show ?thesis by (simp add: bindM_def)
  qed
qed

lemma preserves_thenM: "preserves I m \<Longrightarrow> preserves I k \<Longrightarrow> preserves I (thenM m k)"
  by (simp add: thenM_def preserves_bindM)

lemma preserves_if:
  "(b \<Longrightarrow> preserves I m) \<Longrightarrow> (\<not> b \<Longrightarrow> preserves I k) \<Longrightarrow> preserves I (if b then m else k)"
  by simp

lemma preserves_case_option:
  "(x = None \<Longrightarrow> preserves I m) \<Longrightarrow> (\<And>y. x = Some y \<Longrightarrow> preserves I (k y)) \<Longrightarrow>
   preserves I (case x of None \<Rightarrow> m | Some y \<Rightarrow> k y)"
  by (cases x) simp_all

lemma preserves_case_prod:
  "(\<And>a b. p = (a, b) \<Longrightarrow> preserves I (f a b)) \<Longrightarrow> preserves I (case p of (a, b) \<Rightarrow> f a b)"
  by (cases p) simp

lemma preserves_yield: "accepts_event I ev \<Longrightarrow> preserves I (yield ev)"
  by (simp add: preserves_def yield_def accepts_event_def)

lemma preserves_log_call: "accepts_call I c \<Longrightarrow> preserves I (log_call c)"
  by (simp add: preserves_def log_call_def accepts_call_def)

lemma preserves_yield_all:
  "(\<And>ev. ev \<in> set evs \<Longrightarrow> accepts_event I ev) \<Longrightarrow> preserves I (yield_all evs)"
  by (induction evs) (auto intro!: preserves_returnM preserves_thenM preserves_yield)

lemma preserves_forM: "(\<And>x. x \<in> set xs \<Longrightarrow> preserves I (f x)) \<Longrightarrow> preserves I (forM xs f)"
  by (induction xs) (auto intro!: preserves_returnM preserves_thenM)

lemmas preserves_intros =
  preserves_returnM preserves_raiseM preserves_liftE preserves_history preserves_bindM
  preserves_thenM preserves_if preserves_case_option preserves_case_prod preserves_yield
  preserves_log_call preserves_yield_all preserves_forM

lemma is_progress_make_event [simp]:
  "is_progress (make_event a k c) \<longleftrightarrow> k \<in> set progress_kinds"
  by (simp add: is_progress_def make_event_def)

lemma progress_kinds_simps [simp]:
  "py ''thinking'' \<in> set progress_kinds"
  "py ''tool_call'' \<in> set progress_kinds"
  "py ''tool_result'' \<in> set progress_kinds"
  "py ''decision'' \<in> set progress_kinds"
  "py ''final_answer'' \<in> set progress_kinds"
  "py ''done'' \<notin> set progress_kinds"
  "py ''error'' \<notin> set progress_kinds"
  by (simp_all add: progress_kinds_def)

subsection \<open>The tools and the agents\<close>

lemma preserves_chat:
  assumes "\<And>c. kind_of c \<in> {KChat, KAnthropic} \<Longrightarrow> accepts_call I c"
  shows "preserves I (chat w p u j)"
  unfolding chat_def get_client_def by (intro preserves_intros) (simp_all add: assms)

lemma preserves_search:
  assumes "accepts_call I (Search q n)" and "accepts_call I (TavilyRequest q n)"
  shows "preserves I (search w q n)"
  unfolding search_def get_tavily_client_def by (intro preserves_intros) (simp_all add: assms)

lemma preserves_route:
  assumes "accepts_call I (Route n site q ctx)"
      and "\<And>c. kind_of c \<in> {KChat, KAnthropic} \<Longrightarrow> accepts_call I c"
  shows "preserves I (route w l n site q ctx)"
  unfolding route_def
  by (intro preserves_intros preserves_chat) (simp_all add: assms)

lemma preserves_competitor_synthesize:
  assumes "accepts_call I (Synthesize Competitor n rs ctx)"
      and "\<And>c. kind_of c \<in> {KChat, KAnthropic} \<Longrightarrow> accepts_call I c"
  shows "preserves I (competitor_synthesize w l n rs ctx)"
  unfolding competitor_synthesize_def
  by (intro preserves_intros preserves_chat) (simp_all add: assms)

lemma preserves_founder_synthesize:
  assumes "accepts_call I (Synthesize Founder n rs ctx)"
      and "\<And>c. kind_of c \<in> {KChat, KAnthropic} \<Longrightarrow> accepts_call I c"
  shows "preserves I (founder_synthesize w l n rs ctx)"
  unfolding founder_synthesize_def
  by (intro preserves_intros preserves_chat) (simp_all add: assms)

lemma preserves_business_synthesize:
  assumes "accepts_call I (Synthesize Business n rs ctx)"
      and "\<And>c. kind_of c \<in> {KChat, KAnthropic} \<Longrightarrow> accepts_call I c"
  shows "preserves I (business_synthesize w l n rs ctx)"
  unfolding business_synthesize_def
  by (intro preserves_intros preserves_chat) (simp_all add: assms)

lemma dispatch_cases:
  "dispatch i = (py ''Competitor Agent'', competitor_synthesize) \<or>
   dispatch i = (py ''Founder Agent'', founder_synthesize) \<or>
   dispatch i = (py ''Business Agent'', business_synthesize)"
  by (cases i) (simp_all add: dispatch_def synthesize_map_def)

lemma preserves_dispatched:
  assumes "dispatch i = (a, f)"
      and "\<And>a. accepts_call I (Synthesize a n rs ctx)"
      and "\<And>c. kind_of c \<in> {KChat, KAnthropic} \<Longrightarrow> accepts_call I c"
  shows "preserves I (f w l n rs ctx)"
  using dispatch_cases [of i] assms(1)
  by (auto intro!: preserves_competitor_synthesize preserves_founder_synthesize
        preserves_business_synthesize assms(2,3))

lemma preserves_verify_company:
  assumes "accepts_call I (VerifyCompany n site)"
      and "\<And>q. accepts_call I (Search q 3)"
      and "\<And>q. accepts_call I (TavilyRequest q 3)"
      and "\<And>c. kind_of c \<in> {KChat, KAnthropic} \<Longrightarrow> accepts_call I c"
  shows "preserves I (verify_company w l n site)"
  unfolding verify_company_def
  by (intro preserves_intros preserves_chat preserves_search) (simp_all add: assms)

subsection \<open>The steps of the orchestrator\<close>

lemma preserves_step0_skip:
  assumes "\<And>ev. is_progress ev \<Longrightarrow> accepts_event I ev"
  shows "preserves I (step0_skip c q)"
  unfolding step0_skip_def
  by (intro preserves_intros) (auto intro!: assms)

lemma preserves_verification_verdict:
  assumes "\<And>ev. is_progress ev \<Longrightarrow> accepts_event I ev"
  shows "preserves I (verification_verdict site v)"
  unfolding verification_verdict_def
  by (intro preserves_intros) (auto intro!: assms)

lemma preserves_step0_verify:
  assumes "\<And>ev. is_progress ev \<Longrightarrow> accepts_event I ev"
      and "accepts_call I (VerifyCompany c site)"
      and "\<And>q. accepts_call I (Search q 3)"
      and "\<And>q. accepts_call I (TavilyRequest q 3)"
      and "\<And>c. kind_of c \<in> {KChat, KAnthropic} \<Longrightarrow> accepts_call I c"
  shows "preserves I (step0_verify w l c site q)"
  unfolding step0_verify_def
  by (intro preserves_intros preserves_verify_company preserves_verification_verdict)
     (auto intro!: assms)

lemma preserves_step0:
  assumes "\<And>ev. is_progress ev \<Longrightarrow> accepts_event I ev"
      and "\<And>site. accepts_call I (VerifyCompany c site)"
      and "\<And>q. accepts_call I (Search q 3)"
      and "\<And>q. accepts_call I (TavilyRequest q 3)"
      and "\<And>c. kind_of c \<in> {KChat, KAnthropic} \<Longrightarrow> accepts_call I c"
  shows "preserves I (step0 w l c site_opt q)"
  unfolding step0_def
  by (intro preserves_intros preserves_step0_verify preserves_step0_skip)
     (auto intro!: assms)

lemma preserves_step1:
  assumes "\<And>ev. is_progress ev \<Longrightarrow> accepts_event I ev"
      and "accepts_call I (Route c site q ctx)"
      and "\<And>c. kind_of c \<in> {KChat, KAnthropic} \<Longrightarrow> accepts_call I c"
  shows "preserves I (step1 w l c site q ctx)"
  unfolding step1_def
  by (intro preserves_intros preserves_route) (auto intro!: assms)

lemma preserves_step2:
  assumes "\<And>ev. is_progress ev \<Longrightarrow> accepts_event I ev"
  shows "preserves I (step2 a ctx)"
  unfolding step2_def
  by (intro preserves_intros) (auto intro!: assms)

lemma preserves_result_events:
  assumes "\<And>ev. is_progress ev \<Longrightarrow> accepts_event I ev"
  shows "preserves I (result_events l jr)"
  unfolding result_events_def
  by (intro preserves_intros) (auto intro!: assms)

lemma preserves_search_step:
  assumes "\<And>ev. is_progress ev \<Longrightarrow> accepts_event I ev"
      and "\<And>q. accepts_call I (Search q 3)"
      and "\<And>q. accepts_call I (TavilyRequest q 3)"
  shows "preserves I (search_step w l iq)"
  unfolding search_step_def
  by (intro preserves_intros preserves_search preserves_result_events)
     (auto intro!: assms)

lemma preserves_search_loop:
  assumes "\<And>ev. is_progress ev \<Longrightarrow> accepts_event I ev"
      and "\<And>q. accepts_call I (Search q 3)"
      and "\<And>q. accepts_call I (TavilyRequest q 3)"
  shows "preserves I (search_loop w l iqs acc)"
proof (induction iqs arbitrary: acc)
  case Nil
  show ?case by (simp add: preserves_returnM)
next
  case (Cons iq iqs)
  show ?case
    unfolding search_loop.simps
    by (intro preserves_bindM preserves_search_step Cons.IH assms)
qed

lemma preserves_step3:
  assumes "\<And>ev. is_progress ev \<Longrightarrow> accepts_event I ev"
      and "\<And>q. accepts_call I (Search q 3)"
      and "\<And>q. accepts_call I (TavilyRequest q 3)"
  shows "preserves I (step3 w l a result)"
  unfolding step3_def
  by (intro preserves_intros preserves_search_loop) (auto intro!: assms)

lemma preserves_step4:
  assumes "dispatch i = (a, f)"
      and "\<And>ev. is_progress ev \<Longrightarrow> accepts_event I ev"
      and "\<And>a. accepts_call I (Synthesize a n rs ctx)"
      and "\<And>c. kind_of c \<in> {KChat, KAnthropic} \<Longrightarrow> accepts_call I c"
  shows "preserves I (step4 w l a f n rs ctx)"
  unfolding step4_def
  by (intro preserves_intros preserves_dispatched [OF assms(1)]) (auto intro!: assms(2,3,4))

section \<open>The shape of the event stream\<close>

lemma hoare_bindM_preserves:
  assumes "preserves I m" and "\<And>x. hoare I (f x) Q" and "\<And>e s. I s \<Longrightarrow> Q (Inl e) s"
  shows "hoare I (bindM m f) Q"
  unfolding hoare_def
proof (intro allI impI)
  fix s assume s: "I s"
  obtain r s' where ms: "m s = (r, s')" by (cases "m s")
  from assms(1) s ms have s': "I s'" by (auto simp: preserves_def)
  show "Q (fst (bindM m f s)) (snd (bindM m f s))"
  proof (cases r)
    case (Inl e)
    with ms s' assms(3) show ?thesis by (simp add: bindM_def)
  next
    case (Inr x)
    from assms(2) [of x] s' have "Q (fst (f x s')) (snd (f x s'))" by (simp add: hoare_def)
    with ms Inr show ?thesis by (simp add: bindM_def)
  qed
qed

lemma hoare_thenM_preserves:
  assumes "preserves I m" and "hoare I k Q" and "\<And>e s. I s \<Longrightarrow> Q (Inl e) s"
  shows "hoare I (thenM m k) Q"
  unfolding thenM_def using assms by (intro hoare_bindM_preserves)

lemma progress_only_accepts_event: "is_progress ev \<Longrightarrow> accepts_event progress_only ev"
  by (simp add: accepts_event_def progress_only_def)

lemma progress_only_accepts_call: "accepts_call progress_only c"
  by (simp add: accepts_call_def progress_only_def)

lemma step5_outcome: "hoare progress_only (step5 a answer) body_outcome"
  by (simp add: hoare_def step5_def io_simps body_outcome_def progress_only_def done_event_def
        butlast_append)

lemma specialist_steps_outcome:
  "hoare progress_only (specialist_steps w l request ctx result) body_outcome"
proof -
  obtain a f where d: "dispatch (intent result) = (a, f)"
    by (cases "dispatch (intent result)")
  show ?thesis
    unfolding specialist_steps_def d prod.case
    by (intro hoare_thenM_preserves hoare_bindM_preserves step5_outcome preserves_step2
          preserves_step3 preserves_step4 [OF d] progress_only_accepts_event
          progress_only_accepts_call)
       (simp_all add: body_outcome_def)
qed

lemma pipeline_body_outcome: "hoare progress_only (pipeline_body w l request) body_outcome"
  unfolding pipeline_body_def
  by (intro hoare_bindM_preserves specialist_steps_outcome preserves_step0 preserves_step1
        progress_only_accepts_event progress_only_accepts_call)
     (simp_all add: body_outcome_def)

lemma progress_only_fresh: "progress_only fresh"
  by (simp add: progress_only_def fresh_def)

lemma body_outcome_fresh:
  "body_outcome (fst (pipeline_body w l request fresh)) (snd (pipeline_body w l request fresh))"
  using pipeline_body_outcome [of w l request] progress_only_fresh by (simp add: hoare_def)

lemma run_pipeline_success:
  assumes "pipeline_body w l request fresh = (Inr u, s)"
  shows "run_pipeline w l request = s"
  using assms by (simp add: run_pipeline_def try_except_def fresh_def)

lemma run_pipeline_failure:
  assumes "pipeline_body w l request fresh = (Inl e, s)"
  shows "run_pipeline w l request =
           s\<lparr>events := events s @
               [make_event (py ''System'') (py ''error'') ([10060] @ py '' Error: '' @ exc_str l e),
                make_event (py ''System'') (py ''error'') (format_exc l e)]\<rparr>"
  using assms by (simp add: run_pipeline_def try_except_def fresh_def on_exception_def io_simps)

lemma is_progress_not_done: "is_progress ev \<Longrightarrow> event ev \<noteq> py ''done''"
  by (auto simp: is_progress_def)

text \<open>
  Claim C1. The event stream of a run is never empty. When no step raises, its last
  event is the completion event (agent \<open>System\<close>, kind \<open>done\<close>) and every event before
  it reports progress; when a step raises, its last event is an error event of agent
  \<open>System\<close> and no \<open>done\<close> event occurs anywhere. The terminal event is the last one, so
  nothing follows it.
\<close>

theorem stream_ends_with_terminal_event:
  "events (run_pipeline w l request) \<noteq> [] \<and>
   (if pipeline_raises w l request
    then is_error (last (events (run_pipeline w l request))) \<and>
         agent (last (events (run_pipeline w l request))) = py ''System'' \<and>
         list_all (\<lambda>ev. event ev \<noteq> py ''done'') (events (run_pipeline w l request))
    else last (events (run_pipeline w l request)) = done_event \<and>
         list_all is_progress (butlast (events (run_pipeline w l request))))"
proof -
  obtain r s where body: "pipeline_body w l request fresh = (r, s)"
    by (cases "pipeline_body w l request fresh")
  have outcome: "body_outcome r s"
    using body_outcome_fresh [of w l request] body by simp
  show ?thesis
  proof (cases r)
    case (Inl e)
    with outcome have "list_all is_progress (events s)"
      by (simp add: body_outcome_def progress_only_def)
    then have "list_all (\<lambda>ev. event ev \<noteq> py ''done'') (events s)"
      by (auto simp: list_all_iff is_progress_not_done)
    with Inl body show ?thesis
      by (simp add: run_pipeline_failure pipeline_raises_def is_error_def make_event_def)
  next
    case (Inr u)
    with outcome body show ?thesis
      by (simp add: run_pipeline_success pipeline_raises_def body_outcome_def)
  qed
qed

section \<open>Counting calls\<close>

lemma cost_append [simp]: "cost wt (xs @ ys) = cost wt xs + cost wt ys"
  by (simp add: cost_def)

lemma cost_Nil [simp]: "cost wt [] = 0"
  by (simp add: cost_def)

lemma cost_single [simp]: "cost wt [c] = wt (kind_of c)"
  by (simp add: cost_def)

lemma adds_mono: "adds wt a m \<Longrightarrow> a \<le> b \<Longrightarrow> adds wt b m"
  by (fastforce simp: adds_def intro: order_trans)

lemma adds_returnM: "adds wt 0 (returnM x)"
  by (simp add: adds_def returnM_def)

lemma adds_raiseM: "adds wt 0 (raiseM e)"
  by (simp add: adds_def raiseM_def)

lemma adds_liftE: "adds wt 0 (liftE r)"
  by (simp add: adds_def liftE_def)

lemma adds_history: "adds wt 0 history"
  by (simp add: adds_def history_def)

lemma adds_yield: "adds wt 0 (yield ev)"
  by (simp add: adds_def yield_def)

lemma adds_yield_all: "adds wt 0 (yield_all evs)"
  by (simp add: adds_def yield_all_apply)

lemma adds_log_call: "kind_of c = k \<Longrightarrow> adds wt (wt k) (log_call c)"
  by (simp add: adds_def log_call_def)

lemma adds_bindM:
  assumes "adds wt a m" and "\<And>x. adds wt b (f x)"
  shows "adds wt (a + b) (bindM m f)"
  unfolding adds_def
proof
  fix s
  obtain r s' where ms: "m s = (r, s')" by (cases "m s")
  from assms(1) ms have 1: "cost wt (calls s') \<le> cost wt (calls s) + a"
    by (auto simp: adds_def dest: spec [of _ s])
  show "cost wt (calls (snd (bindM m f s))) \<le> cost wt (calls s) + (a + b)"
  proof (cases r)
    case (Inl e)
    with ms 1 show ?thesis by (simp add: bindM_def)
  next
    case (Inr x)
    from assms(2) [of x] have "cost wt (calls (snd (f x s'))) \<le> cost wt (calls s') + b"
      by (simp add: adds_def)
    with ms Inr 1 show ?thesis by (simp add: bindM_def)
  qed
qed

lemma adds_thenM: "adds wt a m \<Longrightarrow> adds wt b k \<Longrightarrow> adds wt (a + b) (thenM m k)"
  by (simp add: thenM_def adds_bindM)

lemma adds_bindM_0: "adds wt 0 m \<Longrightarrow> (\<And>x. adds wt 0 (f x)) \<Longrightarrow> adds wt 0 (bindM m f)"
  using adds_bindM [of wt 0 m 0 f] by simp

lemma adds_thenM_0: "adds wt 0 m \<Longrightarrow> adds wt 0 k \<Longrightarrow> adds wt 0 (thenM m k)"
  using adds_thenM [of wt 0 m 0 k] by simp

lemma adds_if_0: "adds wt 0 m \<Longrightarrow> adds wt 0 k \<Longrightarrow> adds wt 0 (if b then m else k)"
  by simp

lemma adds_case_option_0:
  "adds wt 0 m \<Longrightarrow> (\<And>y. adds wt 0 (k y)) \<Longrightarrow> adds wt 0 (case x of None \<Rightarrow> m | Some y \<Rightarrow> k y)"
  by (cases x) simp_all

lemma adds_case_prod:
  "(\<And>a b. adds wt n (f a b)) \<Longrightarrow> adds wt n (case p of (a, b) \<Rightarrow> f a b)"
  by (cases p) simp

lemma adds_forM_0: "(\<And>x. adds wt 0 (f x)) \<Longrightarrow> adds wt 0 (forM xs f)"
  by (induction xs) (auto intro!: adds_returnM adds_thenM_0)

lemma adds_if_max: "adds wt a m \<Longrightarrow> adds wt b k \<Longrightarrow> adds wt (max a b) (if c then m else k)"
  by (auto intro: adds_mono)

lemma adds_case_option_max:
  assumes "adds wt a m" and "\<And>y. adds wt b (k y)"
  shows "adds wt (max a b) (case x of None \<Rightarrow> m | Some y \<Rightarrow> k y)"
proof (cases x)
  case None
  then show ?thesis using adds_mono [OF assms(1), of "max a b"] by simp
next
  case (Some y)
  then show ?thesis using adds_mono [OF assms(2) [of y], of "max a b"] by simp
qed

lemma adds_log_call_kinds:
  "adds wt (wt KVerify) (log_call (VerifyCompany n site))"
  "adds wt (wt KRoute) (log_call (Route n site' q ctx))"
  "adds wt (wt KSearch) (log_call (Search q k))"
  "adds wt (wt KSynthesize) (log_call (Synthesize a n rs ctx))"
  "adds wt (wt KChat) (log_call (Chat p u j))"
  "adds wt (wt KTavily) (log_call (TavilyRequest q k))"
  "adds wt (wt KAnthropic) (log_call (AnthropicRequest p u))"
  by (simp_all add: adds_def log_call_def)

text \<open>Rules for computations that make no call, and rules that add up the calls made.\<close>

lemmas adds0_intros =
  adds_returnM adds_raiseM adds_liftE adds_history adds_yield adds_yield_all
  adds_bindM_0 adds_thenM_0 adds_if_0 adds_case_option_0 adds_case_prod adds_forM_0

lemmas adds_rules =
  adds_returnM adds_raiseM adds_liftE adds_history adds_yield adds_yield_all
  adds_log_call_kinds adds_bindM adds_thenM adds_if_max adds_case_option_max adds_case_prod

lemma adds_get_client: "adds wt 0 (get_client w)"
  unfolding get_client_def by (intro adds0_intros)

lemma adds_get_tavily_client: "adds wt 0 (get_tavily_client w)"
  unfolding get_tavily_client_def by (intro adds0_intros)

lemma adds_chat: "adds wt (wt KChat + wt KAnthropic) (chat w p u j)"
  by (rule adds_mono, unfold chat_def, (rule adds_rules adds_get_client)+) simp

lemma adds_search: "adds wt (wt KSearch + wt KTavily) (search w q n)"
  by (rule adds_mono, unfold search_def, (rule adds_rules adds_get_tavily_client)+) simp

lemma adds_route: "adds wt (wt KRoute + (wt KChat + wt KAnthropic)) (route w l n site q ctx)"
  by (rule adds_mono, unfold route_def, (rule adds_rules adds_chat)+) simp

lemma adds_competitor_synthesize:
  "adds wt (wt KSynthesize + (wt KChat + wt KAnthropic)) (competitor_synthesize w l n rs ctx)"
  by (rule adds_mono, unfold competitor_synthesize_def, (rule adds_rules adds_chat)+) simp

lemma adds_founder_synthesize:
  "adds wt (wt KSynthesize + (wt KChat + wt KAnthropic)) (founder_synthesize w l n rs ctx)"
  by (rule adds_mono, unfold founder_synthesize_def, (rule adds_rules adds_chat)+) simp

lemma adds_business_synthesize:
  "adds wt (wt KSynthesize + (wt KChat + wt KAnthropic)) (business_synthesize w l n rs ctx)"
  by (rule adds_mono, unfold business_synthesize_def, (rule adds_rules adds_chat)+) simp

lemma adds_dispatched:
  assumes "dispatch i = (a, f)"
  shows "adds wt (wt KSynthesize + (wt KChat + wt KAnthropic)) (f w l n rs ctx)"
  using dispatch_cases [of i] assms
  by (auto intro!: adds_competitor_synthesize adds_founder_synthesize adds_business_synthesize)

lemma adds_verify_company:
  "adds wt (wt KVerify + 2 * (wt KSearch + wt KTavily) + (wt KChat + wt KAnthropic))
     (verify_company w l n site)"
  by (rule adds_mono, unfold verify_company_def, (rule adds_rules adds_search adds_chat)+) simp

lemma adds_verification_verdict: "adds wt 0 (verification_verdict site v)"
  unfolding verification_verdict_def by (intro adds0_intros)

lemma adds_step0_skip: "adds wt 0 (step0_skip c q)"
  unfolding step0_skip_def by (intro adds0_intros)

lemma adds_step0_verify:
  "adds wt (wt KVerify + 2 * (wt KSearch + wt KTavily) + (wt KChat + wt KAnthropic))
     (step0_verify w l c site q)"
proof -
  have shown: "adds wt 0 (if similar_companies v \<noteq> [] then
              thenM (yield ev)
                (forM (take 3 (similar_companies v)) (\<lambda>similar. yield (g similar)))
            else returnM ())" for v ev g
    by (intro adds0_intros)
  show ?thesis
    by (rule adds_mono, unfold step0_verify_def,
        (rule adds_rules adds_verify_company adds_verification_verdict shown)+) simp
qed

lemma adds_step0:
  "adds wt (wt KVerify + 2 * (wt KSearch + wt KTavily) + (wt KChat + wt KAnthropic))
     (step0 w l c site_opt q)"
proof -
  have skip: "adds wt (wt KVerify + 2 * (wt KSearch + wt KTavily) + (wt KChat + wt KAnthropic))
                (step0_skip c q)"
    by (rule adds_mono [OF adds_step0_skip]) simp
  show ?thesis
  proof (cases site_opt)
    case None
    with skip show ?thesis by (simp add: step0_def)
  next
    case (Some site)
    with skip adds_step0_verify [of wt w l c site q] show ?thesis
      by (simp only: step0_def option.case split: if_split) blast
  qed
qed

lemma adds_step1:
  "adds wt (wt KRoute + (wt KChat + wt KAnthropic)) (step1 w l c site q ctx)"
  by (rule adds_mono, unfold step1_def, (rule adds_rules adds_route)+) simp

lemma adds_step2: "adds wt 0 (step2 a ctx)"
  unfolding step2_def by (intro adds0_intros)

lemma adds_result_events: "adds wt 0 (result_events l jr)"
  unfolding result_events_def by (intro adds0_intros)

lemma adds_search_step: "adds wt (wt KSearch + wt KTavily) (search_step w l iq)"
proof -
  have results: "adds wt 0 (forM (enumerate1 rs) (result_events l))" for rs
    by (intro adds0_intros adds_result_events)
  show ?thesis
    by (rule adds_mono, unfold search_step_def, (rule adds_rules adds_search results)+) simp
qed

lemma adds_search_loop:
  "adds wt (length iqs * (wt KSearch + wt KTavily)) (search_loop w l iqs acc)"
proof (induction iqs arbitrary: acc)
  case Nil
  show ?case by (simp add: adds_returnM)
next
  case (Cons iq iqs)
  show ?case
    by (rule adds_mono, unfold search_loop.simps,
        (rule adds_rules adds_search_step Cons.IH)+) simp
qed

lemma adds_step3: "adds wt (2 * (wt KSearch + wt KTavily)) (step3 w l a result)"
proof -
  have "length (enumerate1 (take 2 (search_queries result))) \<le> 2"
    by (simp add: enumerate1_def)
  then have "length (enumerate1 (take 2 (search_queries result))) * (wt KSearch + wt KTavily)
             \<le> 2 * (wt KSearch + wt KTavily)"
    by (rule mult_le_mono1)
  then show ?thesis
    by - (rule adds_mono, unfold step3_def, (rule adds_rules adds_search_loop)+, simp)
qed

lemma adds_step4:
  assumes "dispatch i = (a, f)"
  shows "adds wt (wt KSynthesize + (wt KChat + wt KAnthropic)) (step4 w l a f n rs ctx)"
  by (rule adds_mono, unfold step4_def, (rule adds_rules adds_dispatched [OF assms])+) simp

lemma adds_step5: "adds wt 0 (step5 a answer)"
  unfolding step5_def by (intro adds0_intros)

lemma adds_specialist_steps:
  "adds wt (2 * (wt KSearch + wt KTavily) + (wt KSynthesize + (wt KChat + wt KAnthropic)))
     (specialist_steps w l request ctx result)"
proof -
  obtain a f where d: "dispatch (intent result) = (a, f)"
    by (cases "dispatch (intent result)")
  show ?thesis
    by (rule adds_mono, unfold specialist_steps_def d prod.case,
        (rule adds_rules adds_step2 adds_step3 adds_step4 [OF d] adds_step5)+) simp
qed

lemma adds_pipeline_body:
  "adds wt (wt KVerify + wt KRoute + wt KSynthesize + 4 * (wt KSearch + wt KTavily)
            + 3 * (wt KChat + wt KAnthropic))
     (pipeline_body w l request)"
  by (rule adds_mono, unfold pipeline_body_def,
      (rule adds_rules adds_step0 adds_step1 adds_specialist_steps)+) simp

lemma cost_indicator: "cost (\<lambda>k'. if k' = k then 1 else 0) cs = count_kind k cs"
  by (induction cs) (simp_all add: cost_def count_kind_def)

lemma pipeline_body_calls:
  "count_kind k (calls (snd (pipeline_body w l request fresh))) \<le> max_calls k"
proof -
  let ?wt = "\<lambda>k'. if k' = k then 1 else (0::nat)"
  have "cost ?wt (calls (snd (pipeline_body w l request fresh)))
        \<le> cost ?wt (calls fresh) + (?wt KVerify + ?wt KRoute + ?wt KSynthesize
             + 4 * (?wt KSearch + ?wt KTavily) + 3 * (?wt KChat + ?wt KAnthropic))"
    using adds_pipeline_body [of ?wt w l request] unfolding adds_def by blast
  also have "\<dots> = max_calls k"
    by (cases k) (simp_all add: fresh_def)
  finally show ?thesis by (simp add: cost_indicator)
qed

section \<open>Exceptions\<close>

lemma is_progress_not_error: "is_progress ev \<Longrightarrow> \<not> is_error ev"
  by (auto simp: is_progress_def is_error_def)

lemma filter_is_error_progress: "list_all is_progress evs \<Longrightarrow> filter is_error evs = []"
  by (induction evs) (simp_all add: is_progress_not_error)

text \<open>
  Claim C2, as the code has it. When a step raises \<open>e\<close>, leaving the state \<open>s\<close>, the
  handler appends two error events to the events yielded so far, the message of \<open>e\<close>
  and then the traceback; everything before them reports progress, so the stream
  holds exactly two error events. The handler makes no call, and no call of the run
  is repeated: the company is verified, the intent routed and a specialist called at
  most once, at most four searches are made (two for verification, two planned) and
  at most three LLM calls.
\<close>

theorem exception_yields_message_and_traceback:
  assumes "pipeline_body w l request fresh = (Inl e, s)"
  shows "events (run_pipeline w l request) =
           events s @
             [make_event (py ''System'') (py ''error'') ([10060] @ py '' Error: '' @ exc_str l e),
              make_event (py ''System'') (py ''error'') (format_exc l e)]
         \<and> list_all is_progress (events s)
         \<and> length (filter is_error (events (run_pipeline w l request))) = 2
         \<and> calls (run_pipeline w l request) = calls s
         \<and> (\<forall>k. count_kind k (calls (run_pipeline w l request)) \<le> max_calls k)"
proof -
  have run: "run_pipeline w l request =
           s\<lparr>events := events s @
               [make_event (py ''System'') (py ''error'') ([10060] @ py '' Error: '' @ exc_str l e),
                make_event (py ''System'') (py ''error'') (format_exc l e)]\<rparr>"
    by (rule run_pipeline_failure [OF assms])
  have progress: "list_all is_progress (events s)"
    using body_outcome_fresh [of w l request] assms
    by (simp add: body_outcome_def progress_only_def)
  have count: "count_kind k (calls s) \<le> max_calls k" for k
    using pipeline_body_calls [of k w l request] assms by simp
  show ?thesis
    using progress count
    by (simp add: run filter_is_error_progress is_error_def make_event_def)
qed

section \<open>Requests without a website\<close>

lemma preserves_specialist_steps:
  assumes "\<And>ev. is_progress ev \<Longrightarrow> accepts_event I ev"
      and "accepts_event I done_event"
      and "\<And>q. accepts_call I (Search q 3)"
      and "\<And>q. accepts_call I (TavilyRequest q 3)"
      and "\<And>a rs. accepts_call I (Synthesize a (company_name request) rs ctx)"
      and "\<And>c. kind_of c \<in> {KChat, KAnthropic} \<Longrightarrow> accepts_call I c"
  shows "preserves I (specialist_steps w l request ctx result)"
proof -
  obtain a f where d: "dispatch (intent result) = (a, f)"
    by (cases "dispatch (intent result)")
  have step5: "preserves I (step5 a answer)" for answer
    unfolding step5_def
    by (intro preserves_intros) (use assms(1,2) in \<open>simp_all add: done_event_def\<close>)
  show ?thesis
    unfolding specialist_steps_def d prod.case
    by (intro preserves_intros preserves_step2 preserves_step3 preserves_step4 [OF d] step5 assms)
qed

lemma context_free_accepts_event: "accepts_event context_free ev"
  by (simp add: accepts_event_def context_free_def)

lemma context_free_accepts_call: "without_context c \<Longrightarrow> accepts_call context_free c"
  by (simp add: accepts_call_def context_free_def)

lemma without_context_kinds:
  "kind_of c \<in> {KSearch, KTavily, KChat, KAnthropic} \<Longrightarrow> without_context c"
  by (cases c) simp_all

lemma first_call_accepts_event: "accepts_event (first_call c) ev"
  by (simp add: accepts_event_def first_call_def)

lemma first_call_accepts_call: "accepts_call (first_call c) c'"
  by (simp add: accepts_call_def first_call_def)

lemma step0_skip_apply:
  "step0_skip c q s =
     (Inr None,
      s\<lparr>events := events s @
          [make_event (py ''Router'') (py ''thinking'')
             ([128221] @ py '' Received request: analyze '' @ [39] @ c @ [39] @ py '' - ''
              @ [34] @ q @ [34]),
           make_event (py ''Router'') (py ''thinking'')
             ([128161] @ py '' Tip: Provide website URL for more accurate results when company name is common'')]\<rparr>)"
  by (simp add: step0_skip_def io_simps yield_all_apply)

lemma preserves_pipeline_without_website:
  assumes site: "website request = None"
      and "\<And>ev. is_progress ev \<Longrightarrow> accepts_event I ev"
      and "accepts_event I done_event"
      and "accepts_call I (Route (company_name request) None (query request) None)"
      and "\<And>q. accepts_call I (Search q 3)"
      and "\<And>q. accepts_call I (TavilyRequest q 3)"
      and "\<And>a rs. accepts_call I (Synthesize a (company_name request) rs None)"
      and "\<And>c. kind_of c \<in> {KChat, KAnthropic} \<Longrightarrow> accepts_call I c"
  shows "preserves I (pipeline_body w l request)"
proof -
  have ctx: "ctx = None"
    if "fst (step0 w l (company_name request) (website request) (query request) s) = Inr ctx"
    for s ctx
    using that by (simp add: site step0_def step0_skip_apply)
  show ?thesis
    unfolding pipeline_body_def
  proof (rule preserves_bindM_result)
    show "preserves I (step0 w l (company_name request) (website request) (query request))"
      unfolding site step0_def option.case
      by (rule preserves_step0_skip) (rule assms(2))
  next
    fix ctx s
    assume "fst (step0 w l (company_name request) (website request) (query request) s) = Inr ctx"
    then have none: "ctx = None" by (rule ctx)
    show "preserves I (bindM (step1 w l (company_name request) (website request) (query request) ctx)
                         (specialist_steps w l request ctx))"
      unfolding none site
      by (intro preserves_bindM preserves_step1 preserves_specialist_steps assms)
  qed
qed

lemma run_pipeline_calls:
  "calls (run_pipeline w l request) = calls (snd (pipeline_body w l request fresh))"
proof -
  obtain r s where body: "pipeline_body w l request fresh = (r, s)"
    by (cases "pipeline_body w l request fresh")
  then show ?thesis
    by (cases r) (simp_all add: run_pipeline_success run_pipeline_failure)
qed

lemma hoare_bindM_post:
  assumes "hoare P m (\<lambda>r. H)" and "\<And>x. preserves H (f x)"
  shows "hoare P (bindM m f) (\<lambda>r. H)"
  unfolding hoare_def
proof (intro allI impI)
  fix s assume "P s"
  with assms(1) have h: "H (snd (m s))" by (simp add: hoare_def)
  obtain r s' where ms: "m s = (r, s')" by (cases "m s")
  show "H (snd (bindM m f s))"
  proof (cases r)
    case (Inl e)
    with ms h show ?thesis by (simp add: bindM_def)
  next
    case (Inr x)
    from assms(2) [of x] h ms have "H (snd (f x s'))" by (simp add: preserves_def)
    with ms Inr show ?thesis by (simp add: bindM_def)
  qed
qed

lemma hoare_thenM_post:
  "hoare P m (\<lambda>r. H) \<Longrightarrow> preserves H k \<Longrightarrow> hoare P (thenM m k) (\<lambda>r. H)"
  unfolding thenM_def by (rule hoare_bindM_post)

lemma route_first_call:
  "hoare (\<lambda>s. calls s = []) (route w l n site q ctx) (\<lambda>r. first_call (Route n site q ctx))"
  unfolding route_def
  by (intro hoare_thenM_post preserves_intros preserves_chat first_call_accepts_call)
     (simp add: hoare_def log_call_def first_call_def)

lemma no_calls_accepts_event: "accepts_event (\<lambda>s. calls s = []) ev"
  by (simp add: accepts_event_def)

lemma hoare_yield_thenM:
  assumes "accepts_event P ev" and "hoare P k Q"
  shows "hoare P (thenM (yield ev) k) Q"
  using assms by (simp add: hoare_def accepts_event_def thenM_apply yield_apply)

lemma step1_first_call:
  "hoare (\<lambda>s. calls s = []) (step1 w l n site q ctx) (\<lambda>r. first_call (Route n site q ctx))"
  unfolding step1_def
  by (intro hoare_yield_thenM hoare_bindM_post route_first_call preserves_intros
        no_calls_accepts_event first_call_accepts_event)

lemma pipeline_first_call:
  assumes "website request = None"
  shows "first_call (Route (company_name request) None (query request) None)
           (snd (pipeline_body w l request fresh))"
proof -
  let ?R = "Route (company_name request) None (query request) None"
  have rest: "hoare (\<lambda>s. calls s = [])
                (bindM (step1 w l (company_name request) None (query request) None)
                   (specialist_steps w l request None))
                (\<lambda>r. first_call ?R)"
    by (intro hoare_bindM_post step1_first_call preserves_specialist_steps
          first_call_accepts_event first_call_accepts_call)
  have "pipeline_body w l request fresh =
          bindM (step1 w l (company_name request) None (query request) None)
            (specialist_steps w l request None)
            (snd (step0_skip (company_name request) (query request) fresh))"
    by (simp add: pipeline_body_def assms step0_def step0_skip_apply bindM_apply)
  moreover have "calls (snd (step0_skip (company_name request) (query request) fresh)) = []"
    by (simp add: step0_skip_apply fresh_def)
  ultimately show ?thesis
    using rest by (simp add: hoare_def)
qed

lemma synthesized_accepts_event: "accepts_event (synthesized n ctx) ev"
  by (simp add: accepts_event_def synthesized_def)

lemma synthesized_accepts_call: "accepts_call (synthesized n ctx) c"
  by (simp add: accepts_call_def synthesized_def)

lemma hoare_bindM_success:
  assumes "\<And>x. hoare (\<lambda>s. True) (f x) (\<lambda>r s. \<not> isl r \<longrightarrow> H s)"
  shows "hoare (\<lambda>s. True) (bindM m f) (\<lambda>r s. \<not> isl r \<longrightarrow> H s)"
  unfolding hoare_def
proof (intro allI impI)
  fix s
  assume ok: "\<not> isl (fst (bindM m f s))"
  obtain r s' where ms: "m s = (r, s')" by (cases "m s")
  show "H (snd (bindM m f s))"
  proof (cases r)
    case (Inl e)
    with ms ok show ?thesis by (simp add: bindM_def)
  next
    case (Inr x)
    with ms ok assms [of x] show ?thesis by (simp add: bindM_def hoare_def)
  qed
qed

lemma hoare_bindM_established:
  assumes "hoare (\<lambda>s. True) m (\<lambda>r s. \<not> isl r \<longrightarrow> H s)" and "\<And>x. preserves H (f x)"
  shows "hoare (\<lambda>s. True) (bindM m f) (\<lambda>r s. \<not> isl r \<longrightarrow> H s)"
  unfolding hoare_def
proof (intro allI impI)
  fix s
  assume ok: "\<not> isl (fst (bindM m f s))"
  obtain r s' where ms: "m s = (r, s')" by (cases "m s")
  show "H (snd (bindM m f s))"
  proof (cases r)
    case (Inl e)
    with ms ok show ?thesis by (simp add: bindM_def)
  next
    case (Inr x)
    with ms assms(1) have "H s'" by (auto simp: hoare_def dest: spec [of _ s])
    with assms(2) [of x] have "H (snd (f x s'))" by (simp add: preserves_def)
    with ms Inr show ?thesis by (simp add: bindM_def)
  qed
qed

lemma dispatched_synthesized:
  assumes "dispatch i = (a, f)"
  shows "hoare (\<lambda>s. True) (f w l n rs ctx) (\<lambda>r s. \<not> isl r \<longrightarrow> synthesized n ctx s)"
proof -
  have logged: "hoare (\<lambda>s. True) (log_call (Synthesize a' n rs ctx))
                  (\<lambda>r s. \<not> isl r \<longrightarrow> synthesized n ctx s)" for a'
    by (simp add: hoare_def log_call_def synthesized_def)
  have rest: "preserves (synthesized n ctx) (bindM (liftE r) (\<lambda>user_msg. chat w p user_msg False))"
    for r p
    by (intro preserves_intros preserves_chat synthesized_accepts_call)
  from dispatch_cases [of i] assms show ?thesis
    by (auto simp: competitor_synthesize_def founder_synthesize_def business_synthesize_def
          thenM_def intro!: hoare_bindM_established logged rest)
qed

lemma specialist_steps_synthesized:
  "hoare (\<lambda>s. True) (specialist_steps w l request ctx result)
     (\<lambda>r s. \<not> isl r \<longrightarrow> synthesized (company_name request) ctx s)"
proof -
  obtain a f where d: "dispatch (intent result) = (a, f)"
    by (cases "dispatch (intent result)")
  have step5: "preserves (synthesized (company_name request) ctx) (step5 a answer)" for answer
    unfolding step5_def by (intro preserves_intros synthesized_accepts_event)
  show ?thesis
    unfolding specialist_steps_def d prod.case thenM_def step4_def
    by (intro hoare_bindM_success hoare_bindM_established dispatched_synthesized [OF d] step5)
qed

lemma pipeline_synthesized:
  assumes "website request = None" and "\<not> pipeline_raises w l request"
  shows "synthesized (company_name request) None (snd (pipeline_body w l request fresh))"
proof -
  have "hoare (\<lambda>s. True)
          (bindM (step1 w l (company_name request) None (query request) None)
             (specialist_steps w l request None))
          (\<lambda>r s. \<not> isl r \<longrightarrow> synthesized (company_name request) None s)"
    by (intro hoare_bindM_success specialist_steps_synthesized)
  moreover have "pipeline_body w l request fresh =
          bindM (step1 w l (company_name request) None (query request) None)
            (specialist_steps w l request None)
            (snd (step0_skip (company_name request) (query request) fresh))"
    by (simp add: pipeline_body_def assms(1) step0_def step0_skip_apply bindM_apply)
  ultimately show ?thesis
    using assms(2) by (simp add: hoare_def pipeline_raises_def)
qed

text \<open>
  Claim C4. For a request without a website, no call of the run is a call of
  \<open>verify_company\<close>, and every call of \<open>route\<close> and of a specialist's \<open>synthesize\<close> has
  the context \<open>None\<close>. The first call of the run is \<open>route\<close> with the context \<open>None\<close>,
  and a run that does not raise has called \<open>synthesize\<close> with the context \<open>None\<close>.
\<close>

theorem no_website_no_context:
  assumes "website request = None"
  shows "list_all without_context (calls (run_pipeline w l request))
         \<and> calls (run_pipeline w l request) \<noteq> []
         \<and> hd (calls (run_pipeline w l request)) =
             Route (company_name request) None (query request) None
         \<and> (pipeline_raises w l request \<or>
            list_ex (\<lambda>c. \<exists>a rs. c = Synthesize a (company_name request) rs None)
              (calls (run_pipeline w l request)))"
proof -
  have "preserves context_free (pipeline_body w l request)"
    by (intro preserves_pipeline_without_website assms context_free_accepts_event)
       (auto intro!: context_free_accepts_call intro: without_context_kinds)
  moreover have "context_free fresh"
    by (simp add: context_free_def fresh_def)
  ultimately have "context_free (snd (pipeline_body w l request fresh))"
    by (simp add: preserves_def)
  then have 1: "list_all without_context (calls (run_pipeline w l request))"
    by (simp add: run_pipeline_calls context_free_def)
  have 2: "calls (run_pipeline w l request) \<noteq> [] \<and>
           hd (calls (run_pipeline w l request)) =
             Route (company_name request) None (query request) None"
    using pipeline_first_call [OF assms, of w l] by (simp add: run_pipeline_calls first_call_def)
  have 3: "pipeline_raises w l request \<or>
            list_ex (\<lambda>c. \<exists>a rs. c = Synthesize a (company_name request) rs None)
              (calls (run_pipeline w l request))"
    using pipeline_synthesized [OF assms, of w l]
    by (auto simp: run_pipeline_calls synthesized_def)
  from 1 2 3 show ?thesis by simp
qed

section \<open>The router\<close>

lemma search_returns:
  assumes "search w q n s = (Inr rs, s')"
  shows "s' = s\<lparr>calls := calls s @ [Search q n, TavilyRequest q n]\<rparr>"
  using assms
  by (auto simp: search_def get_tavily_client_def io_simps split: if_splits sum.splits)

text \<open>
  Claim C6. When both searches of \<open>verify_company\<close> return an empty list, it returns
  (it does not raise) the unverified result: \<open>verified = False\<close>, the description
  \<open>Could not verify <company>\<close>, no similar companies, the method \<open>no search results\<close>,
  paired with an empty list of results. The calls it makes are the two searches and
  nothing else: the LLM is not called.
\<close>

theorem verify_company_without_results:
  assumes first: "search w (verify_search_query name site) 3
                    (s\<lparr>calls := calls s @ [VerifyCompany name site]\<rparr>) = (Inr [], s1)"
      and second: "search w (name @ py '' company'') 3 s1 = (Inr [], s2)"
  shows "verify_company w l name site s =
           (Inr (\<lparr>verified = False,
                  company_description = py ''Could not verify '' @ name,
                  similar_companies = [],
                  verification_method = py ''no search results''\<rparr>, []), s2)
         \<and> calls s2 = calls s @ [VerifyCompany name site,
                                  Search (verify_search_query name site) 3,
                                  TavilyRequest (verify_search_query name site) 3,
                                  Search (name @ py '' company'') 3,
                                  TavilyRequest (name @ py '' company'') 3]
         \<and> filter is_llm_call (new_calls (verify_company w l name site) s) = []"
proof -
  have s1: "s1 = s\<lparr>calls := calls s @ [VerifyCompany name site,
                                        Search (verify_search_query name site) 3,
                                        TavilyRequest (verify_search_query name site) 3]\<rparr>"
    using search_returns [OF first] by simp
  have s2: "calls s2 = calls s @ [VerifyCompany name site,
                                  Search (verify_search_query name site) 3,
                                  TavilyRequest (verify_search_query name site) 3,
                                  Search (name @ py '' company'') 3,
                                  TavilyRequest (name @ py '' company'') 3]"
    using search_returns [OF second] s1 by simp
  have run: "verify_company w l name site s =
           (Inr (\<lparr>verified = False,
                  company_description = py ''Could not verify '' @ name,
                  similar_companies = [],
                  verification_method = py ''no search results''\<rparr>, []), s2)"
    using first second by (simp add: verify_company_def io_simps)
  show ?thesis
    using s2 by (simp add: run new_calls_def is_llm_call_def)
qed

lemma IntentType_of_value: "IntentType_of (JStr (IntentType_value m)) = Inr m"
  by (cases m) (simp_all add: IntentType_members_def)

text \<open>
  Claim C5, as the code has it. When the reply parses as a JSON object whose \<open>intent\<close> is
  the value of a member \<open>m\<close> of \<open>IntentType\<close>, whose \<open>reasoning\<close> is a string and whose
  \<open>search_queries\<close> are absent or a list of strings, \<open>route\<close> returns a \<open>RouterResult\<close>
  with the intent \<open>m\<close>, which is one of the four members of the enumeration: the
  three categories or \<open>unknown\<close>.
\<close>

theorem route_intent_is_a_member:
  assumes reply: "chat w ROUTER_SYSTEM_PROMPT (route_user_message n site q ctx) True
                    (s\<lparr>calls := calls s @ [Route n site q ctx]\<rparr>) = (Inr raw, s1)"
      and parsed: "json_loads l (fence_stripped raw) = Some (JObj kvs)"
      and intent_field: "map_of kvs (py ''intent'') = Some (JStr (IntentType_value m))"
      and reasoning_field: "map_of kvs (py ''reasoning'') = Some (JStr r)"
      and queries_field:
        "validate_str_list
           (case map_of kvs (py ''search_queries'') of
              None \<Rightarrow> JArr [JStr (n @ py '' '' @ q)]
            | Some v \<Rightarrow> v) = Inr qs"
  shows "route w l n site q ctx s =
           (Inr \<lparr>intent = m, reasoning = r, search_queries = qs, company_context = ctx\<rparr>, s1)
         \<and> m \<in> set [COMPETITOR, FOUNDER, BUSINESS, UNKNOWN]"
proof -
  have "router_result n q ctx (JObj kvs) =
          Inr \<lparr>intent = m, reasoning = r, search_queries = qs, company_context = ctx\<rparr>"
    using intent_field reasoning_field queries_field
    by (simp add: router_result_def bindE_def IntentType_of_value del: IntentType_of.simps)
  then have "route w l n site q ctx s =
           (Inr \<lparr>intent = m, reasoning = r, search_queries = qs, company_context = ctx\<rparr>, s1)"
    using reply parsed by (simp add: route_def io_simps parse_json_response_def)
  moreover have "m \<in> set [COMPETITOR, FOUNDER, BUSINESS, UNKNOWN]"
    by (cases m) simp_all
  ultimately show ?thesis by simp
qed


section \<open>Dispatch\<close>







section \<open>Prompts\<close>

lemma new_calls_append [simp]:
  "drop (length (calls s)) (calls s @ cs) = cs"
  by simp

lemma chat_prompts: "prompts (new_calls (chat w p u j) s) = [(p, u)]"
  by (simp add: new_calls_def chat_def get_client_def io_simps split: sum.splits)

lemma chat_extends: "\<exists>cs. calls (snd (chat w p u j s)) = calls s @ cs \<and> prompts cs = [(p, u)]"
  by (simp add: chat_def get_client_def io_simps split: sum.splits)

lemma competitor_prompts:
  "prompts (new_calls (competitor_synthesize w l n rs ctx) s) =
     (case competitor_user_msg l n rs ctx of
        Inl e \<Rightarrow> []
      | Inr msg \<Rightarrow> [(COMPETITOR_SYNTHESIZE_PROMPT, msg)])"
proof (cases "competitor_user_msg l n rs ctx")
  case (Inl e)
  then show ?thesis
    by (simp add: new_calls_def competitor_synthesize_def io_simps)
next
  case (Inr msg)
  let ?s = "s\<lparr>calls := calls s @ [Synthesize Competitor n rs ctx]\<rparr>"
  obtain cs where cs: "calls (snd (chat w COMPETITOR_SYNTHESIZE_PROMPT msg False ?s)) = calls ?s @ cs"
      "prompts cs = [(COMPETITOR_SYNTHESIZE_PROMPT, msg)]"
    using chat_extends [of w COMPETITOR_SYNTHESIZE_PROMPT msg False ?s] by blast
  have "competitor_synthesize w l n rs ctx s = chat w COMPETITOR_SYNTHESIZE_PROMPT msg False ?s"
    using Inr by (simp add: competitor_synthesize_def io_simps)
  with cs Inr show ?thesis
    by (simp add: new_calls_def)
qed

lemma founder_prompts:
  "prompts (new_calls (founder_synthesize w l n rs ctx) s) =
     (case founder_user_msg l n rs ctx of
        Inl e \<Rightarrow> []
      | Inr msg \<Rightarrow> [(FOUNDER_SYNTHESIZE_PROMPT, msg)])"
proof (cases "founder_user_msg l n rs ctx")
  case (Inl e)
  then show ?thesis
    by (simp add: new_calls_def founder_synthesize_def io_simps)
next
  case (Inr msg)
  let ?s = "s\<lparr>calls := calls s @ [Synthesize Founder n rs ctx]\<rparr>"
  obtain cs where cs: "calls (snd (chat w FOUNDER_SYNTHESIZE_PROMPT msg False ?s)) = calls ?s @ cs"
      "prompts cs = [(FOUNDER_SYNTHESIZE_PROMPT, msg)]"
    using chat_extends [of w FOUNDER_SYNTHESIZE_PROMPT msg False ?s] by blast
  have "founder_synthesize w l n rs ctx s = chat w FOUNDER_SYNTHESIZE_PROMPT msg False ?s"
    using Inr by (simp add: founder_synthesize_def io_simps)
  with cs Inr show ?thesis
    by (simp add: new_calls_def)
qed

lemma business_prompts:
  "prompts (new_calls (business_synthesize w l n rs ctx) s) =
     (case business_user_msg l n rs ctx of
        Inl e \<Rightarrow> []
      | Inr msg \<Rightarrow> [(BUSINESS_SYNTHESIZE_PROMPT, msg)])"
proof (cases "business_user_msg l n rs ctx")
  case (Inl e)
  then show ?thesis
    by (simp add: new_calls_def business_synthesize_def io_simps)
next
  case (Inr msg)
  let ?s = "s\<lparr>calls := calls s @ [Synthesize Business n rs ctx]\<rparr>"
  obtain cs where cs: "calls (snd (chat w BUSINESS_SYNTHESIZE_PROMPT msg False ?s)) = calls ?s @ cs"
      "prompts cs = [(BUSINESS_SYNTHESIZE_PROMPT, msg)]"
    using chat_extends [of w BUSINESS_SYNTHESIZE_PROMPT msg False ?s] by blast
  have "business_synthesize w l n rs ctx s = chat w BUSINESS_SYNTHESIZE_PROMPT msg False ?s"
    using Inr by (simp add: business_synthesize_def io_simps)
  with cs Inr show ?thesis
    by (simp add: new_calls_def)
qed

text \<open>
  Claim C8. Two runs of a specialist's \<open>synthesize\<close> on the same company name, search
  results and context hand the same prompts (system prompt and user message) to
  \<open>chat\<close>, whatever the two worlds answer and whatever was called before.
\<close>

theorem prompt_construction_is_deterministic:
  "prompts (new_calls (competitor_synthesize w1 l n rs ctx) s1) =
     prompts (new_calls (competitor_synthesize w2 l n rs ctx) s2)
   \<and> prompts (new_calls (founder_synthesize w1 l n rs ctx) s1) =
     prompts (new_calls (founder_synthesize w2 l n rs ctx) s2)
   \<and> prompts (new_calls (business_synthesize w1 l n rs ctx) s1) =
     prompts (new_calls (business_synthesize w2 l n rs ctx) s2)"
  by (simp add: competitor_prompts founder_prompts business_prompts)

section \<open>Search results\<close>

lemma mapE_list_all2: "mapE f xs = Inr ys \<Longrightarrow> list_all2 (\<lambda>x y. f x = Inr y) xs ys"
  by (induction xs arbitrary: ys) (auto split: sum.splits)

lemma mapE_total: "list_all (\<lambda>x. \<exists>y. f x = Inr y) xs \<Longrightarrow> \<exists>ys. mapE f xs = Inr ys"
  by (induction xs) auto

lemma search_result_items:
  assumes "search w q n s = (Inr rs, s')"
  shows "\<exists>response items.
           tavily_search w (calls s @ [Search q n]) q n = Inr response \<and>
           response_items response = Inr items \<and> mapE search_item items = Inr rs"
  using assms
  by (simp add: search_def get_tavily_client_def io_simps response_items_def bindE_def
        split: if_split_asm sum.split_asm)

lemma search_item_built: "search_item item = Inr d \<Longrightarrow> built_from item d"
  by (cases item)
     (auto simp: search_item_def built_from_def item_field_def bindE_def split: sum.splits)

lemma py_slice_sliced: "py_slice k v = Inr c \<Longrightarrow> sliced k c"
  by (cases v) auto

lemma py_slice_short_text: "is_str v \<Longrightarrow> py_slice k v = Inr c \<Longrightarrow> short_text k c"
  by (cases v) auto

lemma built_from_wellformed: "built_from item d \<Longrightarrow> wellformed_result d"
  by (cases item)
     (auto simp: built_from_def wellformed_result_def split: sum.splits dest: py_slice_sliced)

lemma built_from_text: "built_from item d \<Longrightarrow> text_item item \<Longrightarrow> text_result d"
  by (cases item)
     (auto simp: built_from_def text_result_def text_item_def split: sum.splits
        dest: py_slice_short_text)

lemma wellformed_source_block: "wellformed_result d \<Longrightarrow> \<exists>b. source_block l d = Inr b"
proof -
  assume "wellformed_result d"
  then have keys: "map fst d = [py ''title'', py ''url'', py ''content'']"
    by (simp add: wellformed_result_def)
  then obtain t u c where "d = [(py ''title'', t), (py ''url'', u), (py ''content'', c)]"
    by (cases d) (auto simp: Cons_eq_map_conv)
  then show ?thesis
    by (simp add: source_block_def bindE_def)
qed

lemma wellformed_search_context:
  assumes "list_all wellformed_result rs"
  shows "\<exists>sc. search_context l rs = Inr sc"
proof -
  from assms have "list_all (\<lambda>d. \<exists>b. source_block l d = Inr b) rs"
    by (auto simp: list_all_iff wellformed_source_block)
  then obtain blocks where "mapE (source_block l) rs = Inr blocks"
    using mapE_total by blast
  then show ?thesis
    by (simp add: search_context_def bindE_def)
qed

lemma list_all2_right:
  "list_all2 P xs ys \<Longrightarrow> (\<And>x y. P x y \<Longrightarrow> Q y) \<Longrightarrow> list_all Q ys"
  by (induction rule: list_all2_induct) auto

lemma search_wellformed:
  assumes "search w q n s = (Inr rs, s')"
  shows "list_all wellformed_result rs"
proof -
  from search_result_items [OF assms] obtain items where "mapE search_item items = Inr rs"
    by blast
  then have "list_all2 (\<lambda>x y. search_item x = Inr y) items rs"
    by (rule mapE_list_all2)
  then show ?thesis
    by (rule list_all2_right) (auto intro: built_from_wellformed search_item_built)
qed

lemma search_outcome_wellformed: "search_outcome w rs \<Longrightarrow> list_all wellformed_result rs"
  unfolding search_outcome_def
  by (metis prod.collapse search_wellformed)

lemma search_outcome_length:
  assumes "honours_max_results w" and "search_outcome w rs"
  shows "length rs \<le> 3"
proof -
  from assms(2) obtain q s where "fst (search w q 3 s) = Inr rs"
    by (auto simp: search_outcome_def)
  then have "search w q 3 s = (Inr rs, snd (search w q 3 s))"
    by (metis prod.collapse)
  from search_result_items [OF this] obtain response items where
    r: "tavily_search w (calls s @ [Search q 3]) q 3 = Inr response"
      "response_items response = Inr items" "mapE search_item items = Inr rs"
    by blast
  from r(3) have "length rs = length items"
    by (auto dest!: mapE_list_all2 simp: list_all2_lengthD)
  moreover from assms(1) r(1,2) have "length items \<le> 3"
    unfolding honours_max_results_def by blast
  ultimately show ?thesis by simp
qed

section \<open>The searches of step 3\<close>

lemma searches_append [simp]: "searches (xs @ ys) = searches xs @ searches ys"
  by (induction xs rule: searches.induct) simp_all

lemma search_calls:
  "\<exists>cs. calls (snd (search w q n s)) = calls s @ cs \<and> searches cs = [(q, n)]"
  by (simp add: search_def get_tavily_client_def io_simps split: sum.splits)

lemma result_events_calls: "calls (snd (forM xs (result_events l) s)) = calls s"
proof -
  have "preserves (\<lambda>s'. calls s' = calls s) (forM xs (result_events l))"
    by (intro preserves_forM preserves_result_events) (simp add: accepts_event_def)
  then show ?thesis by (simp add: preserves_def)
qed

lemma search_step_apply:
  "search_step w l (i, q) s =
     (case search w q 3
             (s\<lparr>events := events s @
                 [make_event (py ''Tavily'') (py ''tool_call'')
                    ([128269] @ py '' Search ['' @ py_nat_str i @ py '']: '' @ [34] @ q @ [34]),
                  make_event (py ''Tavily'') (py ''thinking'')
                    ([128225] @ py '' Sending request to Tavily API...'')]\<rparr>) of
        (Inl e, s2) \<Rightarrow> (Inl e, s2)
      | (Inr srs, s2) \<Rightarrow>
          (case forM (enumerate1 srs) (result_events l)
                  (s2\<lparr>events := events s2 @
                      [make_event (py ''Tavily'') (py ''tool_result'')
                         ([9201, 65039] @ py '' Tavily responded in '' @ elapsed_text w (calls s2)
                          @ py ''s - Found '' @ py_nat_str (length srs) @ py '' results'')]\<rparr>) of
             (Inl e, s4) \<Rightarrow> (Inl e, s4)
           | (Inr u, s4) \<Rightarrow> (Inr srs, s4)))"
  by (simp add: search_step_def io_simps split: prod.splits sum.splits)

lemma search_step_calls:
  "\<exists>cs. calls (snd (search_step w l (i, q) s)) = calls s @ cs \<and> searches cs = [(q, 3)]"
proof -
  let ?s1 = "s\<lparr>events := events s @
                 [make_event (py ''Tavily'') (py ''tool_call'')
                    ([128269] @ py '' Search ['' @ py_nat_str i @ py '']: '' @ [34] @ q @ [34]),
                  make_event (py ''Tavily'') (py ''thinking'')
                    ([128225] @ py '' Sending request to Tavily API...'')]\<rparr>"
  obtain r s2 where sr: "search w q 3 ?s1 = (r, s2)"
    by (cases "search w q 3 ?s1")
  from search_calls [of w q 3 ?s1] sr obtain cs where
    cs: "calls s2 = calls s @ cs" "searches cs = [(q, 3)]"
    by auto
  show ?thesis
  proof (cases r)
    case (Inl e)
    with sr cs show ?thesis by (simp add: search_step_apply)
  next
    case (Inr srs)
    let ?s3 = "s2\<lparr>events := events s2 @
                      [make_event (py ''Tavily'') (py ''tool_result'')
                         ([9201, 65039] @ py '' Tavily responded in '' @ elapsed_text w (calls s2)
                          @ py ''s - Found '' @ py_nat_str (length srs) @ py '' results'')]\<rparr>"
    obtain r4 s4 where shown: "forM (enumerate1 srs) (result_events l) ?s3 = (r4, s4)"
      by (cases "forM (enumerate1 srs) (result_events l) ?s3")
    with result_events_calls [of "enumerate1 srs" l ?s3] have "calls s4 = calls s2"
      by simp
    with sr cs Inr shown show ?thesis
      by (cases r4) (simp_all add: search_step_apply)
  qed
qed

lemma search_step_outcome:
  assumes "fst (search_step w l (i, q) s) = Inr srs"
  shows "search_outcome w srs"
  using assms unfolding search_outcome_def search_step_apply
  by (auto split: prod.splits sum.splits intro!: exI [of _ q]) (metis fst_conv)

lemma search_loop_calls:
  "\<exists>k cs. calls (snd (search_loop w l iqs acc s)) = calls s @ cs \<and>
          searches cs = map (\<lambda>iq. (snd iq, 3)) (take k iqs) \<and> k \<le> length iqs \<and>
          (\<not> isl (fst (search_loop w l iqs acc s)) \<longrightarrow> k = length iqs)"
proof (induction iqs arbitrary: acc s)
  case Nil
  show ?case by (simp add: returnM_def)
next
  case (Cons iq iqs)
  obtain i q where iq: "iq = (i, q)" by (cases iq)
  obtain r s1 where step: "search_step w l (i, q) s = (r, s1)"
    by (cases "search_step w l (i, q) s")
  from search_step_calls [of w l i q s] step obtain c1 where
    c1: "calls s1 = calls s @ c1" "searches c1 = [(q, 3)]"
    by auto
  show ?case
  proof (cases r)
    case (Inl e)
    with step c1 iq have
      "calls (snd (search_loop w l (iq # iqs) acc s)) = calls s @ c1 \<and>
       searches c1 = map (\<lambda>iq. (snd iq, 3)) (take 1 (iq # iqs)) \<and> 1 \<le> length (iq # iqs) \<and>
       (\<not> isl (fst (search_loop w l (iq # iqs) acc s)) \<longrightarrow> 1 = length (iq # iqs))"
      by (simp add: bindM_apply)
    then show ?thesis by blast
  next
    case (Inr srs)
    from Cons.IH [of "acc @ srs" s1] obtain k cs where
      ih: "calls (snd (search_loop w l iqs (acc @ srs) s1)) = calls s1 @ cs"
          "searches cs = map (\<lambda>iq. (snd iq, 3)) (take k iqs)" "k \<le> length iqs"
          "\<not> isl (fst (search_loop w l iqs (acc @ srs) s1)) \<longrightarrow> k = length iqs"
      by blast
    with step c1 iq Inr have
      "calls (snd (search_loop w l (iq # iqs) acc s)) = calls s @ (c1 @ cs) \<and>
       searches (c1 @ cs) = map (\<lambda>iq. (snd iq, 3)) (take (Suc k) (iq # iqs)) \<and>
       Suc k \<le> length (iq # iqs) \<and>
       (\<not> isl (fst (search_loop w l (iq # iqs) acc s)) \<longrightarrow> Suc k = length (iq # iqs))"
      by (simp add: bindM_apply)
    then show ?thesis by blast
  qed
qed

lemma search_loop_results:
  assumes "fst (search_loop w l iqs acc s) = Inr rs"
  shows "\<exists>parts. rs = acc @ concat parts \<and> length parts = length iqs \<and>
                 list_all (search_outcome w) parts"
  using assms
proof (induction iqs arbitrary: acc s)
  case Nil
  then show ?case by (simp add: returnM_def)
next
  case (Cons iq iqs)
  obtain i q where iq: "iq = (i, q)" by (cases iq)
  obtain r s1 where step: "search_step w l (i, q) s = (r, s1)"
    by (cases "search_step w l (i, q) s")
  show ?case
  proof (cases r)
    case (Inl e)
    with step iq Cons.prems show ?thesis by (simp add: bindM_apply)
  next
    case (Inr srs)
    with step have outcome: "search_outcome w srs"
      using search_step_outcome [of w l i q s srs] by simp
    from Inr step iq Cons.prems have "fst (search_loop w l iqs (acc @ srs) s1) = Inr rs"
      by (simp add: bindM_apply)
    from Cons.IH [OF this] obtain parts where
      "rs = (acc @ srs) @ concat parts" "length parts = length iqs"
      "list_all (search_outcome w) parts"
      by blast
    with outcome have
      "rs = acc @ concat (srs # parts) \<and> length (srs # parts) = length (iq # iqs) \<and>
       list_all (search_outcome w) (srs # parts)"
      by simp
    then show ?thesis by blast
  qed
qed

lemma step3_apply:
  "step3 w l a result s =
     (case search_loop w l (enumerate1 (take 2 (search_queries result))) [] s of
        (Inl e, s') \<Rightarrow> (Inl e, s')
      | (Inr rs, s') \<Rightarrow>
          (Inr rs,
           s'\<lparr>events := events s' @
               [make_event a (py ''tool_result'')
                  ([128202] @ py '' Total: '' @ py_nat_str (length rs)
                   @ py '' search results collected'')]\<rparr>))"
  by (simp add: step3_def io_simps split: prod.splits sum.splits)

lemma length_enumerate1 [simp]: "length (enumerate1 xs) = length xs"
  by (simp add: enumerate1_def del: upt_Suc)

lemma map_snd_enumerate1: "map snd (enumerate1 xs) = xs"
  by (simp add: enumerate1_def map_snd_zip del: upt_Suc)

lemma step3_searches:
  "\<exists>k. k \<le> 2 \<and>
       searches (new_calls (step3 w l a result) s) =
         map (\<lambda>q. (q, 3)) (take k (search_queries result)) \<and>
       (\<not> isl (fst (step3 w l a result s)) \<longrightarrow> k = min 2 (length (search_queries result)))"
proof -
  let ?iqs = "enumerate1 (take 2 (search_queries result))"
  from search_loop_calls [of w l ?iqs "[]" s] obtain k cs where
    loop: "calls (snd (search_loop w l ?iqs [] s)) = calls s @ cs"
      "searches cs = map (\<lambda>iq. (snd iq, 3)) (take k ?iqs)" "k \<le> length ?iqs"
      "\<not> isl (fst (search_loop w l ?iqs [] s)) \<longrightarrow> k = length ?iqs"
    by blast
  have len: "length ?iqs = min 2 (length (search_queries result))"
    by (simp add: min.commute)
  have "map (\<lambda>iq. (snd iq, 3::nat)) (take k ?iqs) = map (\<lambda>q. (q, 3)) (take k (map snd ?iqs))"
    by (simp add: take_map o_def)
  also have "\<dots> = map (\<lambda>q. (q, 3)) (take k (take 2 (search_queries result)))"
    by (simp add: map_snd_enumerate1)
  also have "\<dots> = map (\<lambda>q. (q, 3)) (take k (search_queries result))"
    using loop(3) len by (simp add: min_def split: if_splits)
  finally have searched: "searches cs = map (\<lambda>q. (q, 3)) (take k (search_queries result))"
    using loop(2) by simp
  obtain r s' where run: "search_loop w l ?iqs [] s = (r, s')"
    by (cases "search_loop w l ?iqs [] s")
  have new: "new_calls (step3 w l a result) s = cs"
    using loop(1) run by (cases r) (simp_all add: new_calls_def step3_apply)
  have ok: "\<not> isl (fst (step3 w l a result s)) \<longrightarrow> \<not> isl (fst (search_loop w l ?iqs [] s))"
    using run by (cases r) (simp_all add: step3_apply)
  from loop(3,4) len searched new ok show ?thesis
    by (intro exI [of _ k]) auto
qed

lemma step3_results:
  assumes "fst (step3 w l a result s) = Inr rs"
  shows "\<exists>parts. rs = concat parts \<and> length parts \<le> 2 \<and> list_all (search_outcome w) parts"
proof -
  let ?iqs = "enumerate1 (take 2 (search_queries result))"
  obtain r s' where run: "search_loop w l ?iqs [] s = (r, s')"
    by (cases "search_loop w l ?iqs [] s")
  with assms have "fst (search_loop w l ?iqs [] s) = Inr rs"
    by (cases r) (simp_all add: step3_apply)
  from search_loop_results [OF this] obtain parts where
    "rs = concat parts" "length parts = length ?iqs" "list_all (search_outcome w) parts"
    by auto
  moreover have "length ?iqs \<le> 2"
    by simp
  ultimately show ?thesis by auto
qed

section \<open>What the specialist is given\<close>

lemma specialists_given_accepts_event: "accepts_event (specialists_given P) ev"
  by (simp add: accepts_event_def specialists_given_def)

lemma specialists_given_accepts_call:
  "synthesized_with P c \<Longrightarrow> accepts_call (specialists_given P) c"
  by (simp add: accepts_call_def specialists_given_def)

lemma synthesized_with_other:
  "kind_of c \<noteq> KSynthesize \<Longrightarrow> synthesized_with P c"
  by (cases c) simp_all

lemma preserves_specialists_given:
  assumes P: "\<And>parts. length parts \<le> 2 \<Longrightarrow> list_all (search_outcome w) parts \<Longrightarrow> P (concat parts)"
  shows "preserves (specialists_given P) (pipeline_body w l request)"
proof -
  let ?I = "specialists_given P"
  have ev: "accepts_event ?I ev" for ev
    by (rule specialists_given_accepts_event)
  have other: "accepts_call ?I c" if "kind_of c \<noteq> KSynthesize" for c
    using that by (intro specialists_given_accepts_call synthesized_with_other)
  have llm: "accepts_call ?I c" if "kind_of c \<in> {KChat, KAnthropic}" for c
    using that by (intro other) auto
  have steps: "preserves ?I (specialist_steps w l request ctx result)" for ctx result
  proof -
    obtain a f where d: "dispatch (intent result) = (a, f)"
      by (cases "dispatch (intent result)")
    have step5: "preserves ?I (step5 a answer)" for answer
      unfolding step5_def by (intro preserves_intros ev)
    have after: "preserves ?I
        (bindM (step4 w l a f (company_name request) rs ctx) (step5 a))"
      if "fst (step3 w l a result s) = Inr rs" for rs s
    proof -
      from step3_results [OF that] obtain parts where
        "rs = concat parts" "length parts \<le> 2" "list_all (search_outcome w) parts"
        by blast
      then have "P rs" using P by simp
      then have syn: "accepts_call ?I (Synthesize a' (company_name request) rs ctx)" for a'
        by (intro specialists_given_accepts_call) simp
      show ?thesis
        by (intro preserves_bindM preserves_step4 [OF d ev syn llm] step5)
    qed
    show ?thesis
      unfolding specialist_steps_def d prod.case
      by (intro preserves_thenM preserves_step2 preserves_bindM_result preserves_step3 after
            ev other)
         simp_all
  qed
  show ?thesis
    unfolding pipeline_body_def
    by (intro preserves_bindM preserves_step0 preserves_step1 steps ev other) auto
qed

lemma run_pipeline_specialists_given:
  assumes "\<And>parts. length parts \<le> 2 \<Longrightarrow> list_all (search_outcome w) parts \<Longrightarrow> P (concat parts)"
  shows "list_all (synthesized_with P) (calls (run_pipeline w l request))"
proof -
  have "specialists_given P fresh"
    by (simp add: specialists_given_def fresh_def)
  with preserves_specialists_given [of w P l request, OF assms]
  have "specialists_given P (snd (pipeline_body w l request fresh))"
    by (simp add: preserves_def)
  then show ?thesis
    by (simp add: run_pipeline_calls specialists_given_def)
qed

lemma synthesized_results_all:
  "list_all (synthesized_with P) cs \<Longrightarrow> list_all P (synthesized_results cs)"
  by (induction cs rule: synthesized_results.induct) simp_all

lemma length_concat_bound:
  "list_all (\<lambda>p. length p \<le> b) parts \<Longrightarrow> length (concat parts) \<le> b * length parts"
  by (induction parts) auto

lemma collected_at_most_six:
  assumes "honours_max_results w" and "length parts \<le> 2"
      and "list_all (search_outcome w) parts"
  shows "length (concat parts) \<le> 6"
proof -
  from assms(1,3) have "list_all (\<lambda>p. length p \<le> 3) parts"
    by (auto simp: list_all_iff intro: search_outcome_length)
  then have "length (concat parts) \<le> 3 * length parts"
    by (rule length_concat_bound)
  with assms(2) show ?thesis by simp
qed

text \<open>
  Claim C3, as the code has it. With every provider, step 3 searches a prefix of the
  first two planned queries, in order, each with \<open>max_results = 3\<close>, and all of the
  first two when it does not raise; what it collects is the results of at most two
  searches, each with \<open>max_results = 3\<close>, one after the other. \<open>search\<close> returns as
  many results as the provider sends, so only the bound on what is collected needs a
  provider that honours \<open>max_results\<close>: then step 3 collects at most six results, and
  every call of a specialist's \<open>synthesize\<close> in a run is given at most six.
\<close>

theorem two_searches_of_three_results:
  "(\<exists>k. k \<le> 2 \<and>
      searches (new_calls (step3 w l a result) s) =
        map (\<lambda>q. (q, 3)) (take k (search_queries result)) \<and>
      (\<not> isl (fst (step3 w l a result s)) \<longrightarrow> k = min 2 (length (search_queries result))))
   \<and> (\<forall>rs. fst (step3 w l a result s) = Inr rs \<longrightarrow>
         (\<exists>parts. rs = concat parts \<and> length parts \<le> 2 \<and> list_all (search_outcome w) parts))
   \<and> (honours_max_results w \<longrightarrow>
         (\<forall>rs. fst (step3 w l a result s) = Inr rs \<longrightarrow> length rs \<le> 6) \<and>
         list_all (synthesized_with (\<lambda>rs. length rs \<le> 6)) (calls (run_pipeline w l request)))"
proof -
  have parts: "\<exists>parts. rs = concat parts \<and> length parts \<le> 2 \<and> list_all (search_outcome w) parts"
    if "fst (step3 w l a result s) = Inr rs" for rs
    by (rule step3_results [OF that])
  have six: "length rs \<le> 6"
    if "honours_max_results w" and "fst (step3 w l a result s) = Inr rs" for rs
    using parts [OF that(2)] collected_at_most_six [OF that(1)] by blast
  have given: "list_all (synthesized_with (\<lambda>rs. length rs \<le> 6))
                 (calls (run_pipeline w l request))"
    if "honours_max_results w"
    by (rule run_pipeline_specialists_given) (rule collected_at_most_six [OF that])
  from parts six given show ?thesis
    using step3_searches [of w l a result s] by blast
qed

lemma wellformed_concat:
  "list_all (search_outcome w) parts \<Longrightarrow> list_all wellformed_result (concat parts)"
  by (induction parts) (auto dest: search_outcome_wellformed)

lemma user_msgs_total:
  assumes "list_all wellformed_result rs"
  shows "\<exists>m1 m2 m3. competitor_user_msg l name rs ctx = Inr m1 \<and>
                     founder_user_msg l name rs ctx = Inr m2 \<and>
                     business_user_msg l name rs ctx = Inr m3"
proof -
  from wellformed_search_context [OF assms] obtain sc where "search_context l rs = Inr sc"
    by blast
  then show ?thesis
    by (simp add: competitor_user_msg_def founder_user_msg_def business_user_msg_def bindE_def)
qed

text \<open>
  Claim C10, as the code has it. Every dict of a list that \<open>search\<close> returns has
  exactly the keys \<open>title\<close>, \<open>url\<close> and \<open>content\<close>, and its content is a string of at
  most 500 characters or a list of at most 500 elements. Each is built from one item
  of the provider's response: a field the item omits is the empty string, and the
  content is the slice \<open>[:500]\<close> of the item's content; when the item's content is a
  string or is omitted, the content of the dict is a string of at most 500 characters.
  So building the user message of every specialist succeeds on the list, the search
  context of \<open>verify_company\<close> (the results of its two searches) is built without a
  missing key, and every list a run hands to a specialist's \<open>synthesize\<close> is made of
  such dicts.
\<close>

theorem search_results_are_wellformed:
  assumes "search w q n s = (Inr rs, s')"
  shows "list_all wellformed_result rs
         \<and> (\<exists>response items.
               tavily_search w (calls s @ [Search q n]) q n = Inr response \<and>
               response_items response = Inr items \<and> list_all2 built_from items rs \<and>
               list_all2 (\<lambda>item d. text_item item \<longrightarrow> text_result d) items rs)
         \<and> (\<exists>m1 m2 m3. competitor_user_msg l name rs ctx = Inr m1 \<and>
                         founder_user_msg l name rs ctx = Inr m2 \<and>
                         business_user_msg l name rs ctx = Inr m3)
         \<and> (\<forall>q2 s2 rs2 s2'. search w q2 n s2 = (Inr rs2, s2') \<longrightarrow>
               (\<exists>sc. search_context l (rs @ rs2) = Inr sc))
         \<and> list_all (synthesized_with (list_all wellformed_result))
             (calls (run_pipeline w l request))"
proof -
  have 1: "list_all wellformed_result rs"
    by (rule search_wellformed [OF assms])
  from search_result_items [OF assms] obtain response items where
    r: "tavily_search w (calls s @ [Search q n]) q n = Inr response"
      "response_items response = Inr items" "mapE search_item items = Inr rs"
    by blast
  from r(3) have built: "list_all2 built_from items rs"
    by (auto dest!: mapE_list_all2 elim!: list_all2_mono intro: search_item_built)
  then have "list_all2 (\<lambda>item d. text_item item \<longrightarrow> text_result d) items rs"
    by (rule list_all2_mono) (simp add: built_from_text)
  with r built have 2: "\<exists>response items.
               tavily_search w (calls s @ [Search q n]) q n = Inr response \<and>
               response_items response = Inr items \<and> list_all2 built_from items rs \<and>
               list_all2 (\<lambda>item d. text_item item \<longrightarrow> text_result d) items rs"
    by blast
  have 3: "\<exists>sc. search_context l (rs @ rs2) = Inr sc"
    if "search w q2 n s2 = (Inr rs2, s2')" for q2 s2 rs2 s2'
    using 1 search_wellformed [OF that] by (intro wellformed_search_context) simp
  have 4: "list_all (synthesized_with (list_all wellformed_result))
             (calls (run_pipeline w l request))"
    by (rule run_pipeline_specialists_given) (rule wellformed_concat)
  from 1 2 3 4 user_msgs_total [OF 1, of l name ctx] show ?thesis
    by blast
qed

section \<open>The theorems at the example worlds\<close>

lemma strip_REPLY: "fence_stripped (py ''REPLY'') = py ''REPLY''"
  by (simp add: fence_stripped_def strip_def py_def is_space_def startswith_def endswith_def fence_def)

lemma example_chat:
  "chat example_world p u j s =
     (Inr (py ''REPLY''),
      s\<lparr>calls := calls s @ [Chat p u j, AnthropicRequest (if j then p @ JSON_MODE_SUFFIX else p) u]\<rparr>)"
  by (simp add: chat_def get_client_def example_world_def io_simps)

lemma example_search:
  "search example_world q n s =
     (Inr [[(py ''title'', JStr (py ''Acme'')), (py ''url'', JStr (py ''acme.example'')),
            (py ''content'', JStr (py ''Acme makes anvils''))]],
      s\<lparr>calls := calls s @ [Search q n, TavilyRequest q n]\<rparr>)"
  by (simp add: search_def get_tavily_client_def example_world_def io_simps search_item_def
        bindE_def example_item_def)

lemma example_route:
  "route example_world example_lib n site q ctx s =
     (Inr \<lparr>intent = UNKNOWN, reasoning = py ''general question'',
           search_queries = [py ''q1'', py ''q2'', py ''q3''], company_context = ctx\<rparr>,
      s\<lparr>calls := calls s @
          [Route n site q ctx,
           Chat ROUTER_SYSTEM_PROMPT (route_user_message n site q ctx) True,
           AnthropicRequest (ROUTER_SYSTEM_PROMPT @ JSON_MODE_SUFFIX)
             (route_user_message n site q ctx)]\<rparr>)"
  by (simp add: route_def example_chat io_simps parse_json_response_def strip_REPLY
        example_lib_def example_reply_def router_result_def bindE_def IntentType_members_def)

lemma offline_body:
  "pipeline_body offline_world l example_request fresh =
     (Inl (ValueError (py ''ANTHROPIC_API_KEY not set in environment'')),
      \<lparr>events =
         [make_event (py ''Router'') (py ''thinking'')
            ([128221] @ py '' Received request: analyze '' @ [39] @ py ''Acme'' @ [39] @ py '' - ''
             @ [34] @ py ''Who runs it?'' @ [34]),
          make_event (py ''Router'') (py ''thinking'')
            ([128161] @ py '' Tip: Provide website URL for more accurate results when company name is common''),
          make_event (py ''Router'') (py ''thinking'')
            ([129300] @ py '' Analyzing user intent... What does the user want to know?'')],
       calls =
         [Route (py ''Acme'') None (py ''Who runs it?'') None,
          Chat ROUTER_SYSTEM_PROMPT (route_user_message (py ''Acme'') None (py ''Who runs it?'') None) True]\<rparr>)"
  by (simp add: pipeline_body_def step0_def step0_skip_def step1_def route_def chat_def
        get_client_def offline_world_def example_request_def fresh_def io_simps yield_all_apply)

lemma example_body_succeeds:
  "fst (pipeline_body example_world example_lib example_request fresh) = Inr ()"
  by (simp add: pipeline_body_def step0_def step0_skip_def step1_def example_route
        specialist_steps_def dispatch_def synthesize_map_def step2_def step3_def step4_def
        step5_def business_synthesize_def business_user_msg_def search_context_def
        source_block_def example_search example_chat enumerate1_def result_events_def
        search_step_def
        example_request_def fresh_def io_simps yield_all_apply bindE_def)

theorem stream_ends_with_terminal_event_witness:
  "\<not> pipeline_raises example_world example_lib example_request
   \<and> last (events (run_pipeline example_world example_lib example_request)) = done_event
   \<and> pipeline_raises offline_world example_lib example_request
   \<and> is_error (last (events (run_pipeline offline_world example_lib example_request)))"
  using stream_ends_with_terminal_event [of example_world example_lib example_request]
    stream_ends_with_terminal_event [of offline_world example_lib example_request]
    example_body_succeeds offline_body [of example_lib]
  by (simp add: pipeline_raises_def)

theorem exception_yields_message_and_traceback_witness:
  "events (run_pipeline offline_world example_lib example_request) =
     [make_event (py ''Router'') (py ''thinking'')
        ([128221] @ py '' Received request: analyze '' @ [39] @ py ''Acme'' @ [39] @ py '' - ''
         @ [34] @ py ''Who runs it?'' @ [34]),
      make_event (py ''Router'') (py ''thinking'')
        ([128161] @ py '' Tip: Provide website URL for more accurate results when company name is common''),
      make_event (py ''Router'') (py ''thinking'')
        ([129300] @ py '' Analyzing user intent... What does the user want to know?''),
      make_event (py ''System'') (py ''error'') ([10060] @ py '' Error: '' @ py ''failure''),
      make_event (py ''System'') (py ''error'') (py ''Traceback'')]
   \<and> length (filter is_error (events (run_pipeline offline_world example_lib example_request))) = 2
   \<and> calls (run_pipeline offline_world example_lib example_request) =
       [Route (py ''Acme'') None (py ''Who runs it?'') None,
        Chat ROUTER_SYSTEM_PROMPT
          (route_user_message (py ''Acme'') None (py ''Who runs it?'') None) True]"
  using exception_yields_message_and_traceback [OF offline_body [of example_lib]]
  by (simp add: example_lib_def is_error_def make_event_def)

text \<open>
  Claim C2 as stated fails: in the world without API keys the router raises, and the
  stream of the run holds two error events, not one.
\<close>

theorem single_error_event_counterexample:
  "pipeline_raises offline_world example_lib example_request
   \<and> length (filter is_error (events (run_pipeline offline_world example_lib example_request))) \<noteq> 1"
  by (simp add: pipeline_raises_def offline_body run_pipeline_failure [OF offline_body]
        is_error_def make_event_def)

theorem no_website_no_context_witness:
  "website example_request = None
   \<and> list_all without_context (calls (run_pipeline example_world example_lib example_request))
   \<and> hd (calls (run_pipeline example_world example_lib example_request)) =
       Route (py ''Acme'') None (py ''Who runs it?'') None
   \<and> list_ex (\<lambda>c. \<exists>a rs. c = Synthesize a (py ''Acme'') rs None)
       (calls (run_pipeline example_world example_lib example_request))"
proof -
  have site: "website example_request = None"
    by (simp add: example_request_def)
  have ok: "\<not> pipeline_raises example_world example_lib example_request"
    using example_body_succeeds by (simp add: pipeline_raises_def)
  show ?thesis
    using no_website_no_context [OF site, of example_world example_lib] ok
    by (simp add: example_request_def)
qed

lemma silent_search:
  "search silent_world q n s = (Inr [], s\<lparr>calls := calls s @ [Search q n, TavilyRequest q n]\<rparr>)"
  by (simp add: search_def get_tavily_client_def silent_world_def io_simps bindE_def)

theorem verify_company_without_results_witness:
  "verify_company silent_world example_lib (py ''Acme'') (py ''acme.example'') fresh =
     (Inr (\<lparr>verified = False,
            company_description = py ''Could not verify '' @ py ''Acme'',
            similar_companies = [],
            verification_method = py ''no search results''\<rparr>, []),
      \<lparr>events = [],
       calls = [VerifyCompany (py ''Acme'') (py ''acme.example''),
                Search (verify_search_query (py ''Acme'') (py ''acme.example'')) 3,
                TavilyRequest (verify_search_query (py ''Acme'') (py ''acme.example'')) 3,
                Search (py ''Acme'' @ py '' company'') 3,
                TavilyRequest (py ''Acme'' @ py '' company'') 3]\<rparr>)"
  using verify_company_without_results [OF silent_search silent_search,
      where name = "py ''Acme''" and site = "py ''acme.example''" and s = fresh
        and l = example_lib]
  by (simp add: fresh_def)

theorem route_intent_is_a_member_witness:
  "route example_world example_lib (py ''Acme'') None (py ''Who runs it?'') None fresh =
     (Inr \<lparr>intent = UNKNOWN, reasoning = py ''general question'',
           search_queries = [py ''q1'', py ''q2'', py ''q3''], company_context = None\<rparr>,
      \<lparr>events = [],
       calls = [Route (py ''Acme'') None (py ''Who runs it?'') None,
                Chat ROUTER_SYSTEM_PROMPT
                  (route_user_message (py ''Acme'') None (py ''Who runs it?'') None) True,
                AnthropicRequest (ROUTER_SYSTEM_PROMPT @ JSON_MODE_SUFFIX)
                  (route_user_message (py ''Acme'') None (py ''Who runs it?'') None)]\<rparr>)"
proof -
  have parsed: "json_loads example_lib (fence_stripped (py ''REPLY'')) =
      Some (JObj [(py ''intent'', JStr (IntentType_value UNKNOWN)),
                  (py ''reasoning'', JStr (py ''general question'')),
                  (py ''search_queries'', JArr [JStr (py ''q1''), JStr (py ''q2''), JStr (py ''q3'')])])"
    by (simp add: strip_REPLY example_lib_def example_reply_def)
  show ?thesis
    using route_intent_is_a_member [OF example_chat parsed,
        where m = UNKNOWN and r = "py ''general question''" and n = "py ''Acme''"
          and q = "py ''Who runs it?''" and qs = "[py ''q1'', py ''q2'', py ''q3'']"
          and site = None and ctx = None and s = fresh]
    by (simp add: fresh_def)
qed

text \<open>
  Claim C5 as stated fails: a reply whose intent is \<open>unknown\<close> parses, its intent is the
  value of a member of \<open>IntentType\<close>, and \<open>route\<close> returns the intent \<open>UNKNOWN\<close>, which
  is none of the three categories. And a reply that holds a valid intent and no
  \<open>reasoning\<close> makes \<open>route\<close> raise \<open>KeyError\<close>: no \<open>RouterResult\<close> is returned.
\<close>

theorem three_intents_counterexample:
  "parse_json_response example_lib (py ''REPLY'') = Inr example_reply
   \<and> py_getitem example_reply (py ''intent'') = Inr (JStr (py ''unknown''))
   \<and> IntentType_of (JStr (py ''unknown'')) = Inr UNKNOWN
   \<and> fst (route example_world example_lib (py ''Acme'') None (py ''Who runs it?'') None fresh) =
       Inr \<lparr>intent = UNKNOWN, reasoning = py ''general question'',
            search_queries = [py ''q1'', py ''q2'', py ''q3''], company_context = None\<rparr>
   \<and> UNKNOWN \<notin> set [COMPETITOR, FOUNDER, BUSINESS]
   \<and> parse_json_response terse_lib (py ''REPLY'') =
       Inr (JObj [(py ''intent'', JStr (py ''founder_lookup''))])
   \<and> IntentType_of (JStr (py ''founder_lookup'')) = Inr FOUNDER
   \<and> fst (route example_world terse_lib (py ''Acme'') None (py ''Who runs it?'') None fresh) =
       Inl (KeyError (py ''reasoning''))"
proof -
  have "parse_json_response example_lib (py ''REPLY'') = Inr example_reply"
    by (simp add: parse_json_response_def strip_REPLY example_lib_def)
  moreover have "py_getitem example_reply (py ''intent'') = Inr (JStr (py ''unknown''))"
    by (simp add: example_reply_def)
  moreover have "IntentType_of (JStr (py ''unknown'')) = Inr UNKNOWN"
    by (simp add: IntentType_members_def)
  moreover have terse: "parse_json_response terse_lib (py ''REPLY'') =
       Inr (JObj [(py ''intent'', JStr (py ''founder_lookup''))])"
    by (simp add: parse_json_response_def strip_REPLY terse_lib_def)
  moreover have "IntentType_of (JStr (py ''founder_lookup'')) = Inr FOUNDER"
    by (simp add: IntentType_members_def)
  moreover have
    "fst (route example_world terse_lib (py ''Acme'') None (py ''Who runs it?'') None fresh) =
       Inl (KeyError (py ''reasoning''))"
    by (simp add: route_def example_chat io_simps terse router_result_def bindE_def
          IntentType_members_def)
  ultimately show ?thesis
    by (simp add: example_route)
qed





theorem prompt_construction_is_deterministic_witness:
  "prompts (new_calls (competitor_synthesize example_world example_lib (py ''Acme'') [] None) fresh) =
     prompts (new_calls (competitor_synthesize offline_world example_lib (py ''Acme'') [] None) fresh)
   \<and> prompts (new_calls (founder_synthesize example_world example_lib (py ''Acme'') [] None) fresh) =
     prompts (new_calls (founder_synthesize offline_world example_lib (py ''Acme'') [] None) fresh)
   \<and> prompts (new_calls (business_synthesize example_world example_lib (py ''Acme'') [] None) fresh) =
     prompts (new_calls (business_synthesize offline_world example_lib (py ''Acme'') [] None) fresh)"
  by (rule prompt_construction_is_deterministic)


lemma honours_compliant_world: "honours_max_results compliant_world"
  by (auto simp: honours_max_results_def compliant_world_def response_items_def bindE_def)

lemma generous_chat:
  "chat generous_world p u j s =
     (Inr (py ''REPLY''),
      s\<lparr>calls := calls s @ [Chat p u j, AnthropicRequest (if j then p @ JSON_MODE_SUFFIX else p) u]\<rparr>)"
  by (simp add: chat_def get_client_def generous_world_def io_simps)

lemma generous_search:
  "search generous_world q n s =
     (Inr [[(py ''title'', JStr (py ''A'')), (py ''url'', JStr []), (py ''content'', JStr [])],
           [(py ''title'', JStr (py ''B'')), (py ''url'', JStr []), (py ''content'', JStr [])],
           [(py ''title'', JStr (py ''C'')), (py ''url'', JStr []), (py ''content'', JStr [])],
           [(py ''title'', JStr (py ''D'')), (py ''url'', JStr []), (py ''content'', JStr [])]],
      s\<lparr>calls := calls s @ [Search q n, TavilyRequest q n]\<rparr>)"
  by (simp add: search_def get_tavily_client_def generous_world_def io_simps search_item_def
        bindE_def)

lemma generous_route:
  "route generous_world example_lib n site q ctx s =
     (Inr \<lparr>intent = UNKNOWN, reasoning = py ''general question'',
           search_queries = [py ''q1'', py ''q2'', py ''q3''], company_context = ctx\<rparr>,
      s\<lparr>calls := calls s @
          [Route n site q ctx,
           Chat ROUTER_SYSTEM_PROMPT (route_user_message n site q ctx) True,
           AnthropicRequest (ROUTER_SYSTEM_PROMPT @ JSON_MODE_SUFFIX)
             (route_user_message n site q ctx)]\<rparr>)"
  by (simp add: route_def generous_chat io_simps parse_json_response_def strip_REPLY
        example_lib_def example_reply_def router_result_def bindE_def IntentType_members_def)

lemma generous_run:
  "map length (synthesized_results (calls (snd (pipeline_body generous_world example_lib
      example_request fresh)))) = [8]
   \<and> searches (calls (snd (pipeline_body generous_world example_lib example_request fresh))) =
       [(py ''q1'', 3), (py ''q2'', 3)]"
  by (simp add: pipeline_body_def step0_def step0_skip_def step1_def generous_route
        specialist_steps_def dispatch_def synthesize_map_def step2_def step3_def step4_def
        step5_def business_synthesize_def business_user_msg_def search_context_def
        source_block_def generous_search generous_chat enumerate1_def result_events_def
        search_step_def example_request_def fresh_def io_simps yield_all_apply bindE_def)

text \<open>
  Claim C3 as stated fails: with a provider that answers every request with four
  results, a run makes its two searches, each asking for three results, and hands
  eight results to the specialist.
\<close>

theorem six_results_counterexample:
  "searches (calls (run_pipeline generous_world example_lib example_request)) =
     [(py ''q1'', 3), (py ''q2'', 3)]
   \<and> map length (synthesized_results
       (calls (run_pipeline generous_world example_lib example_request))) = [8]
   \<and> \<not> list_all (synthesized_with (\<lambda>rs. length rs \<le> 6))
       (calls (run_pipeline generous_world example_lib example_request))"
proof -
  let ?cs = "calls (run_pipeline generous_world example_lib example_request)"
  have run: "searches ?cs = [(py ''q1'', 3), (py ''q2'', 3)]"
      "map length (synthesized_results ?cs) = [8]"
    using generous_run by (simp_all add: run_pipeline_calls)
  have "\<not> list_all (\<lambda>rs. length rs \<le> 6) (synthesized_results ?cs)"
    using run(2) by (auto simp: list_all_iff)
  then have "\<not> list_all (synthesized_with (\<lambda>rs. length rs \<le> 6)) ?cs"
    using synthesized_results_all by blast
  with run show ?thesis by simp
qed

lemma compliant_chat:
  "chat compliant_world p u j s =
     (Inr (py ''REPLY''),
      s\<lparr>calls := calls s @ [Chat p u j, AnthropicRequest (if j then p @ JSON_MODE_SUFFIX else p) u]\<rparr>)"
  by (simp add: chat_def get_client_def compliant_world_def io_simps)

lemma compliant_search:
  "search compliant_world q 3 s =
     (Inr [[(py ''title'', JStr (py ''A'')), (py ''url'', JStr []), (py ''content'', JStr [])],
           [(py ''title'', JStr (py ''B'')), (py ''url'', JStr []), (py ''content'', JStr [])],
           [(py ''title'', JStr (py ''C'')), (py ''url'', JStr []), (py ''content'', JStr [])]],
      s\<lparr>calls := calls s @ [Search q 3, TavilyRequest q 3]\<rparr>)"
  by (simp add: search_def get_tavily_client_def compliant_world_def io_simps search_item_def
        bindE_def)

lemma compliant_route:
  "route compliant_world example_lib n site q ctx s =
     (Inr \<lparr>intent = UNKNOWN, reasoning = py ''general question'',
           search_queries = [py ''q1'', py ''q2'', py ''q3''], company_context = ctx\<rparr>,
      s\<lparr>calls := calls s @
          [Route n site q ctx,
           Chat ROUTER_SYSTEM_PROMPT (route_user_message n site q ctx) True,
           AnthropicRequest (ROUTER_SYSTEM_PROMPT @ JSON_MODE_SUFFIX)
             (route_user_message n site q ctx)]\<rparr>)"
  by (simp add: route_def compliant_chat io_simps parse_json_response_def strip_REPLY
        example_lib_def example_reply_def router_result_def bindE_def IntentType_members_def)

lemma compliant_run:
  "map length (synthesized_results (calls (snd (pipeline_body compliant_world example_lib
      example_request fresh)))) = [6]"
  by (simp add: pipeline_body_def step0_def step0_skip_def step1_def compliant_route
        specialist_steps_def dispatch_def synthesize_map_def step2_def step3_def step4_def
        step5_def business_synthesize_def business_user_msg_def search_context_def
        source_block_def compliant_search compliant_chat enumerate1_def result_events_def
        search_step_def example_request_def fresh_def io_simps yield_all_apply bindE_def)

theorem two_searches_of_three_results_witness:
  "honours_max_results compliant_world
   \<and> list_all (synthesized_with (\<lambda>rs. length rs \<le> 6))
       (calls (run_pipeline compliant_world example_lib example_request))
   \<and> map length (synthesized_results
       (calls (run_pipeline compliant_world example_lib example_request))) = [6]"
  using two_searches_of_three_results [where w = compliant_world and l = example_lib
      and request = example_request]
    honours_compliant_world compliant_run
  by (simp add: run_pipeline_calls)

theorem search_results_are_wellformed_witness:
  "list_all wellformed_result
     [[(py ''title'', JStr (py ''Acme'')), (py ''url'', JStr (py ''acme.example'')),
       (py ''content'', JStr (py ''Acme makes anvils''))]]
   \<and> text_item example_item
   \<and> list_all text_result
       [[(py ''title'', JStr (py ''Acme'')), (py ''url'', JStr (py ''acme.example'')),
         (py ''content'', JStr (py ''Acme makes anvils''))]]
   \<and> list_all (synthesized_with (list_all wellformed_result))
       (calls (run_pipeline example_world example_lib example_request))"
proof -
  have item: "text_item example_item"
    by (simp add: text_item_def example_item_def item_field_def)
  have items: "response_items (JObj [(py ''results'', JArr [example_item])]) = Inr [example_item]"
    by (simp add: response_items_def bindE_def)
  show ?thesis
    using search_results_are_wellformed [OF example_search,
        where l = example_lib and request = example_request] item items
    by (auto simp: example_world_def)
qed

lemma paragraphs_search:
  "search paragraphs_world q n s =
     (Inr [[(py ''title'', JStr []), (py ''url'', JStr []),
            (py ''content'', JArr [JStr paragraph_text, JStr paragraph_text])]],
      s\<lparr>calls := calls s @ [Search q n, TavilyRequest q n]\<rparr>)"
  by (simp add: search_def get_tavily_client_def paragraphs_world_def io_simps search_item_def
        bindE_def)

text \<open>
  Claim C10 as stated fails: of a provider item whose content is a list of two
  paragraphs of 1000 characters each, \<open>search\<close> returns a dict whose content is that
  list, all 2000 characters of it, and no string of at most 500 characters.
\<close>

theorem long_content_counterexample:
  "fst (search paragraphs_world (py ''Acme'') 3 fresh) =
     Inr [[(py ''title'', JStr []), (py ''url'', JStr []),
           (py ''content'', JArr [JStr paragraph_text, JStr paragraph_text])]]
   \<and> length paragraph_text = 1000
   \<and> \<not> list_all text_result
         [[(py ''title'', JStr []), (py ''url'', JStr []),
           (py ''content'', JArr [JStr paragraph_text, JStr paragraph_text])]]"
  by (simp add: paragraphs_search text_result_def paragraph_text_def)

end
